theory Spec2Isabelle
  imports Main "HOL-Library.Word" "HOL-Library.List_Lexorder"
begin

unbundle bit_operations_syntax

section \<open>Strings, buffers and the primitives of the runtime\<close>

text \<open>
  A JavaScript string is a sequence of UTF-16 code units, a Node \<open>Buffer\<close> a sequence of
  bytes.
\<close>

type_synonym jsstring = "16 word list"
type_synonym buffer = "8 word list"

definition str :: "string \<Rightarrow> jsstring" where
  \<comment> \<open>an ASCII literal of the source as a JavaScript string\<close>
  "str s = map of_char s"

definition CRLF :: jsstring where
  "CRLF = [13, 10]"

definition asciiLower :: "jsstring \<Rightarrow> jsstring" where
  \<comment> \<open>the letters \<open>A\<close> to \<open>Z\<close> in lower case, as a regular expression with the flag \<open>i\<close>
      folds them\<close>
  "asciiLower s = map (\<lambda>c. if 0x41 \<le> c \<and> c \<le> 0x5A then c + 0x20 else c) s"

definition asciiUpper :: "jsstring \<Rightarrow> jsstring" where
  "asciiUpper s = map (\<lambda>c. if 0x61 \<le> c \<and> c \<le> 0x7A then c - 0x20 else c) s"

fun join :: "'a list \<Rightarrow> 'a list list \<Rightarrow> 'a list" where
  \<comment> \<open>\<open>Array.prototype.join\<close> on an array of strings\<close>
  "join sep [] = []"
| "join sep [x] = x"
| "join sep (x # y # ys) = x @ sep @ join sep (y # ys)"

definition hexDigit :: "nat \<Rightarrow> 16 word" where
  "hexDigit d = of_char (''0123456789abcdef'' ! (d mod 16))"

fun natToHex :: "nat \<Rightarrow> jsstring" where
  "natToHex n = (if n < 16 then [hexDigit n] else natToHex (n div 16) @ [hexDigit (n mod 16)])"

declare natToHex.simps [simp del]

section \<open>Numbers\<close>

text \<open>
  A JavaScript number is a double. The lengths and counts of the chunked upload are integers,
  or an infinity or NaN once a result overflows or is undefined: \<open>Num i\<close> is the double
  whose value is the integer \<open>i\<close> (the two zeros are one value here: no operation below tells
  them apart). The arithmetic rounds the exact result to the nearest double, a tie to the even
  significand, and to an infinity from \<open>2 ^ 1024\<close> on, as IEEE 754 does. Fractions are left
  out: the guards of \<open>calculateChunks\<close> refuse them, and the quotient of the two lengths is
  only read through \<open>Math.floor\<close>.
\<close>

datatype number = Num int | PosInf | NegInf | NaN

fun bitLength :: "nat \<Rightarrow> nat" where
  \<comment> \<open>the number of binary digits\<close>
  "bitLength n = (if n = 0 then 0 else Suc (bitLength (n div 2)))"

declare bitLength.simps [simp del]

definition roundEven :: "nat \<Rightarrow> nat \<Rightarrow> nat" where
  \<comment> \<open>\<open>a / b\<close> rounded to the nearest integer, a tie to the even one\<close>
  "roundEven a b =
     (let q = a div b; r = a mod b
      in if b < 2 * r \<or> (2 * r = b \<and> odd q) then q + 1 else q)"

definition nearest :: "nat \<Rightarrow> nat" where
  \<comment> \<open>the nearest integer that has at most 53 significant binary digits\<close>
  "nearest n = (let k = bitLength n - 53 in roundEven n (2 ^ k) * 2 ^ k)"

definition toDouble :: "int \<Rightarrow> number" where
  \<comment> \<open>the double that an exact integer result is rounded to\<close>
  "toDouble i =
     (let m = int (nearest (nat \<bar>i\<bar>))
      in if 2 ^ 1024 \<le> m then (if i < 0 then NegInf else PosInf)
         else Num (if i < 0 then - m else m))"

fun numNeg :: "number \<Rightarrow> number" where
  "numNeg (Num a) = Num (- a)"
| "numNeg PosInf = NegInf"
| "numNeg NegInf = PosInf"
| "numNeg NaN = NaN"

fun numAdd :: "number \<Rightarrow> number \<Rightarrow> number" where
  \<comment> \<open>\<open>x + y\<close>\<close>
  "numAdd (Num a) (Num b) = toDouble (a + b)"
| "numAdd NaN y = NaN"
| "numAdd x NaN = NaN"
| "numAdd PosInf NegInf = NaN"
| "numAdd NegInf PosInf = NaN"
| "numAdd PosInf y = PosInf"
| "numAdd x PosInf = PosInf"
| "numAdd NegInf y = NegInf"
| "numAdd x NegInf = NegInf"

definition numSub :: "number \<Rightarrow> number \<Rightarrow> number" where
  \<comment> \<open>\<open>x - y\<close>\<close>
  "numSub x y = numAdd x (numNeg y)"

fun infTimes :: "bool \<Rightarrow> number \<Rightarrow> number" where
  \<comment> \<open>an infinity (the positive one for \<open>True\<close>) times a number\<close>
  "infTimes pos (Num b) = (if b = 0 then NaN else if (0 < b) = pos then PosInf else NegInf)"
| "infTimes pos PosInf = (if pos then PosInf else NegInf)"
| "infTimes pos NegInf = (if pos then NegInf else PosInf)"
| "infTimes pos NaN = NaN"

fun numMul :: "number \<Rightarrow> number \<Rightarrow> number" where
  \<comment> \<open>\<open>x * y\<close>\<close>
  "numMul (Num a) (Num b) = toDouble (a * b)"
| "numMul NaN y = NaN"
| "numMul PosInf y = infTimes True y"
| "numMul NegInf y = infTimes False y"
| "numMul x NaN = NaN"
| "numMul x PosInf = infTimes True x"
| "numMul x NegInf = infTimes False x"

fun numLess :: "number \<Rightarrow> number \<Rightarrow> bool" where
  \<comment> \<open>\<open>x < y\<close>\<close>
  "numLess (Num a) (Num b) = (a < b)"
| "numLess NaN y = False"
| "numLess x NaN = False"
| "numLess x NegInf = False"
| "numLess PosInf y = False"
| "numLess NegInf y = True"
| "numLess x PosInf = True"

definition numEq :: "number \<Rightarrow> number \<Rightarrow> bool" where
  \<comment> \<open>\<open>x === y\<close>\<close>
  "numEq x y = (x \<noteq> NaN \<and> x = y)"

definition numTruthy :: "number \<Rightarrow> bool" where
  \<comment> \<open>zero and NaN are falsy\<close>
  "numTruthy x = (x \<noteq> Num 0 \<and> x \<noteq> NaN)"

text \<open>
  \<open>Math.floor(a / b)\<close> for integers \<open>a \<ge> 0\<close> and \<open>b > 0\<close>. The quotient is rounded to a
  double first: with \<open>L\<close> the number of binary digits of its integer part, to a multiple of
  \<open>2 ^ (L - 53)\<close>, which is a fraction when \<open>L < 53\<close>; the floor is taken from that.
\<close>

definition floorQuotient :: "nat \<Rightarrow> nat \<Rightarrow> nat" where
  "floorQuotient a b =
     (let L = bitLength (a div b)
      in if L \<le> 53 then roundEven (a * 2 ^ (53 - L)) b div 2 ^ (53 - L)
         else roundEven a (b * 2 ^ (L - 53)) * 2 ^ (L - 53))"

fun floorDiv :: "number \<Rightarrow> number \<Rightarrow> number" where
  \<comment> \<open>\<open>Math.floor(x / y)\<close> as \<open>calculateChunks\<close> calls it, after its guards:
      \<open>x\<close> is not below 0 and \<open>y\<close> not below 8192\<close>
  "floorDiv (Num a) (Num b) = Num (int (floorQuotient (nat a) (nat b)))"
| "floorDiv (Num a) PosInf = Num 0"
| "floorDiv PosInf (Num b) = PosInf"
| "floorDiv x y = NaN"

text \<open>
  \<open>Number.prototype.toString(16)\<close> and the conversion to a string are exact on the safe
  integers. Beyond them ECMAScript leaves the digits of \<open>toString(16)\<close> to the engine, and the
  decimal digits are the shortest that read back as the same double: both are parameters
  of the model there.
\<close>

record numberFormat =
  radix16 :: "int \<Rightarrow> jsstring"
  decimal :: "int \<Rightarrow> jsstring"

fun toString16 :: "numberFormat \<Rightarrow> number \<Rightarrow> jsstring" where
  \<comment> \<open>\<open>Number.prototype.toString(16)\<close>\<close>
  "toString16 N (Num n) =
     (if \<bar>n\<bar> < 2 ^ 53
      then (if n < 0 then of_char CHR ''-'' # natToHex (nat (- n)) else natToHex (nat n))
      else radix16 N n)"
| "toString16 N PosInf = str ''Infinity''"
| "toString16 N NegInf = str ''-Infinity''"
| "toString16 N NaN = str ''NaN''"

section \<open>Buffers\<close>

definition bufferToHex :: "buffer \<Rightarrow> jsstring" where
  \<comment> \<open>\<open>buf.toString('hex')\<close>\<close>
  "bufferToHex b = concat (map (\<lambda>x. [hexDigit (unat x div 16), hexDigit (unat x mod 16)]) b)"

fun utf8 :: "jsstring \<Rightarrow> buffer" where
  \<comment> \<open>\<open>Buffer.from(str)\<close>: UTF-8, a lone surrogate becomes U+FFFD\<close>
  "utf8 [] = []"
| "utf8 (c # cs) =
     (let u = unat c in
      if u < 0x80 then of_nat u # utf8 cs
      else if u < 0x800 then of_nat (0xC0 + u div 64) # of_nat (0x80 + u mod 64) # utf8 cs
      else if 0xD800 \<le> u \<and> u < 0xDC00 then
        (case cs of
           [] \<Rightarrow> [0xEF, 0xBF, 0xBD]
         | d # ds \<Rightarrow>
             (let v = unat d in
              if 0xDC00 \<le> v \<and> v < 0xE000 then
                (let p = 0x10000 + (u - 0xD800) * 0x400 + (v - 0xDC00) in
                 of_nat (0xF0 + p div 0x40000) # of_nat (0x80 + (p div 0x1000) mod 64)
                   # of_nat (0x80 + (p div 64) mod 64) # of_nat (0x80 + p mod 64) # utf8 ds)
              else [0xEF, 0xBF, 0xBD] @ utf8 cs))
      else if 0xDC00 \<le> u \<and> u < 0xE000 then [0xEF, 0xBF, 0xBD] @ utf8 cs
      else of_nat (0xE0 + u div 0x1000) # of_nat (0x80 + (u div 64) mod 64)
             # of_nat (0x80 + u mod 64) # utf8 cs)"

text \<open>
  The hash and the MAC come from Node's \<open>crypto\<close> module, which is not part of the
  repository: they are parameters of the model.
  \<open>sha256 K b\<close> is \<open>createHash('sha256').update(b).digest()\<close> and
  \<open>hmac_sha256 K k m\<close> is \<open>createHmac('sha256', k).update(m).digest()\<close>.
\<close>

record crypto =
  sha256 :: "buffer \<Rightarrow> buffer"
  hmac_sha256 :: "buffer \<Rightarrow> buffer \<Rightarrow> buffer"

text \<open>
  The errors that the code throws. The message of the chunk signer reports
  \<open>chunk && chunk.length\<close>, which is \<open>undefined\<close> for no chunk, the empty string for an empty
  string, and the \<open>length\<close> property otherwise, and the length that it expected.
\<close>

datatype reported = ReportedUndefined | ReportedEmptyString | ReportedLength number

datatype error =
    InvalidChunkLength
  | InvalidBodyLength
  | PayloadComplete
  | UnexpectedChunkSize reported number
  | InvalidAuthorizationStructure
  | MissingFields
  | InvalidSignatureFormat
  | DuplicateHeaders jsstring
  | NoHostNorService
  | HostNotParsed
  | InvalidURL
  | UnexpectedISOString
  | TypeError

section \<open>core: signing data and digest signing\<close>

record signing_data =
  key :: buffer
  scope :: jsstring

definition signString :: "crypto \<Rightarrow> buffer \<Rightarrow> jsstring \<Rightarrow> buffer" where
  "signString K k sts = hmac_sha256 K k (utf8 sts)"

definition signDigest :: "crypto \<Rightarrow> jsstring \<Rightarrow> jsstring \<Rightarrow> jsstring \<Rightarrow> signing_data \<Rightarrow> buffer" where
  "signDigest K algorithm payloadDigest timestamp signing =
     signString K (key signing) (join (str ''\<newline>'') [algorithm, timestamp, scope signing, payloadDigest])"

section \<open>http: the body hash\<close>

text \<open>
  A body (and a chunk) is a \<open>Buffer\<close>, a string, or an object with a \<open>hash\<close>; a chunk
  description also has a \<open>length\<close>.
\<close>

datatype body =
    BodyBuffer buffer
  | BodyString jsstring
  | BodyHash jsstring "int option"

definition EMPTY_HASH :: "crypto \<Rightarrow> jsstring" where
  "EMPTY_HASH K = bufferToHex (sha256 K [])"

fun truthy :: "body option \<Rightarrow> bool" where
  \<comment> \<open>\<open>undefined\<close> and the empty string are falsy, every object is truthy\<close>
  "truthy None = False"
| "truthy (Some (BodyString s)) = (s \<noteq> [])"
| "truthy (Some _) = True"

fun hashBody :: "crypto \<Rightarrow> body option \<Rightarrow> jsstring" where
  "hashBody K None = EMPTY_HASH K"
| "hashBody K (Some (BodyHash h l)) = h"
| "hashBody K (Some (BodyBuffer b)) = bufferToHex (sha256 K b)"
| "hashBody K (Some (BodyString s)) = (if s = [] then EMPTY_HASH K else bufferToHex (sha256 K (utf8 s)))"

section \<open>s3\_chunked: the chunk signature chain\<close>

definition PAYLOAD_STREAMING :: jsstring where
  "PAYLOAD_STREAMING = str ''STREAMING-AWS4-HMAC-SHA256-PAYLOAD''"

definition CHUNK_MIN :: int where
  "CHUNK_MIN = 8 * 1024"

definition ALGORITHM_STREAMING :: jsstring where
  "ALGORITHM_STREAMING = str ''AWS4-HMAC-SHA256-PAYLOAD''"

definition calculateChunks :: "number \<Rightarrow> number \<Rightarrow> error + (number \<times> number)" where
  \<comment> \<open>returns \<open>(chunks, lastLength)\<close>; of the numbers of the model only NaN differs from its
      \<open>Math.floor\<close>\<close>
  "calculateChunks bodyLength chunkLength =
     (if chunkLength = NaN \<or> numLess chunkLength (Num CHUNK_MIN) then Inl InvalidChunkLength
      else if bodyLength = NaN \<or> numLess bodyLength (Num 0) then Inl InvalidBodyLength
      else (let chunks = floorDiv bodyLength chunkLength
            in Inr (chunks, numSub bodyLength (numMul chunks chunkLength))))"

definition signS3Chunk :: "crypto \<Rightarrow> jsstring \<Rightarrow> signing_data \<Rightarrow> jsstring \<Rightarrow> body option \<Rightarrow> jsstring" where
  "signS3Chunk K lastSignature signing timestamp chunk =
     (let digest = join (str ''\<newline>'') [lastSignature, EMPTY_HASH K, hashBody K chunk]
      in bufferToHex (signDigest K ALGORITHM_STREAMING digest timestamp signing))"

text \<open>
  The first lines of \<open>signS3ChunkedRequest\<close>: the lengths and frame headers that the
  chunk signer closes over, and the total length it declares as \<open>content-length\<close>. The sum
  is taken from left to right, as the source writes it, each step rounded.
\<close>

record framing =
  bodyLength :: number
  chunkLength :: number
  chunks :: number
  lastLength :: number
  chunkHeader :: jsstring
  lastHeader :: jsstring
  finalHeader :: jsstring
  totalLength :: number

definition chunkFraming :: "numberFormat \<Rightarrow> number \<Rightarrow> number \<Rightarrow> error + framing" where
  "chunkFraming N bodyLength' chunkLength' =
     (case calculateChunks bodyLength' chunkLength' of
        Inl e \<Rightarrow> Inl e
      | Inr (chunks', lastLength') \<Rightarrow>
          (let chunkHeader' = toString16 N chunkLength' @ str '';chunk-signature='';
               lastHeader' = toString16 N lastLength' @ str '';chunk-signature='';
               finalHeader' = str ''0;chunk-signature='';
               totalLength' =
                 numAdd (numAdd (numAdd (numAdd (numAdd bodyLength'
                   (numMul (numAdd (numAdd (Num (int (length chunkHeader'))) (Num 64)) (Num 4)) chunks'))
                   (if numTruthy lastLength'
                    then numAdd (numAdd (Num (int (length lastHeader'))) (Num 64)) (Num 4)
                    else Num 0))
                   (Num (int (length finalHeader')))) (Num 64)) (Num 4)
           in Inr \<lparr> bodyLength = bodyLength', chunkLength = chunkLength', chunks = chunks',
                    lastLength = lastLength', chunkHeader = chunkHeader', lastHeader = lastHeader',
                    finalHeader = finalHeader', totalLength = totalLength' \<rparr>))"

text \<open>The mutable variables of the closure: \<open>signature\<close>, \<open>dataCount\<close> and \<open>done\<close>.\<close>

record signer_state =
  signature :: jsstring
  dataCount :: number
  isDone :: bool

definition newSigner :: "jsstring \<Rightarrow> signer_state" where
  \<comment> \<open>the state at creation; the seed is the hex signature of the signed request\<close>
  "newSigner seed = \<lparr> signature = seed, dataCount = Num 0, isDone = False \<rparr>"

fun chunkLen :: "body option \<Rightarrow> number option" where
  \<comment> \<open>\<open>chunk ? chunk.length : 0\<close>; \<open>None\<close> is \<open>undefined\<close>\<close>
  "chunkLen None = Some (Num 0)"
| "chunkLen (Some (BodyBuffer b)) = Some (Num (int (length b)))"
| "chunkLen (Some (BodyString s)) = Some (Num (int (length s)))"
| "chunkLen (Some (BodyHash h l)) = map_option Num l"

fun chunkAndLength :: "body option \<Rightarrow> reported" where
  \<comment> \<open>\<open>chunk && chunk.length\<close>\<close>
  "chunkAndLength None = ReportedUndefined"
| "chunkAndLength (Some (BodyBuffer b)) = ReportedLength (Num (int (length b)))"
| "chunkAndLength (Some (BodyString s)) =
     (if s = [] then ReportedEmptyString else ReportedLength (Num (int (length s))))"
| "chunkAndLength (Some (BodyHash h l)) =
     (case l of None \<Rightarrow> ReportedUndefined | Some n \<Rightarrow> ReportedLength (Num n))"

definition lengthIs :: "body option \<Rightarrow> number \<Rightarrow> bool" where
  \<comment> \<open>\<open>(chunk ? chunk.length : 0) === length\<close>\<close>
  "lengthIs chunk len = (case chunkLen chunk of Some n \<Rightarrow> numEq n len | None \<Rightarrow> False)"

definition expected :: "framing \<Rightarrow> signer_state \<Rightarrow> number \<times> jsstring" where
  \<comment> \<open>the \<open>length\<close> and \<open>header\<close> that a call expects in a state\<close>
  "expected F st =
     (if numLess (numSub (bodyLength F) (dataCount st)) (chunkLength F) then
        (if \<not> numEq (dataCount st) (bodyLength F) then (lastLength F, lastHeader F)
         else (Num 0, finalHeader F))
      else (chunkLength F, chunkHeader F))"

definition chunkSigner ::
  "crypto \<Rightarrow> framing \<Rightarrow> signing_data \<Rightarrow> jsstring \<Rightarrow> signer_state \<Rightarrow> body option
     \<Rightarrow> (error + jsstring) \<times> signer_state" where
  \<comment> \<open>one call: what it returns or throws, and the state it leaves\<close>
  "chunkSigner K F signing timestamp st chunk =
     (if isDone st then (Inl PayloadComplete, st)
      else (case expected F st of (len, header) \<Rightarrow>
        if \<not> lengthIs chunk len then (Inl (UnexpectedChunkSize (chunkAndLength chunk) len), st)
        else (let st1 = st \<lparr> signature := signS3Chunk K (signature st) signing timestamp chunk \<rparr>;
                  st2 = st1 \<lparr> dataCount := numAdd (dataCount st1) len \<rparr>;
                  st3 = st2 \<lparr> isDone := \<not> numTruthy len \<rparr>
              in (Inr ((if numEq (dataCount st3) len then [] else CRLF)
                        @ header @ signature st3 @ CRLF @ (if numTruthy len then [] else CRLF)),
                  st3))))"

text \<open>
  A driver that calls the signer with each chunk of a list in turn. \<open>runSigner\<close> stops at
  the first call that throws, as an uncaught exception does; \<open>callSigner\<close> goes on after
  a call that throws, as a driver that catches it does, and keeps each call's outcome.
\<close>

fun runSigner ::
  "crypto \<Rightarrow> framing \<Rightarrow> signing_data \<Rightarrow> jsstring \<Rightarrow> signer_state \<Rightarrow> body option list
     \<Rightarrow> error + (jsstring list \<times> signer_state)" where
  "runSigner K F signing timestamp st [] = Inr ([], st)"
| "runSigner K F signing timestamp st (c # cs) =
     (case chunkSigner K F signing timestamp st c of
        (Inl e, _) \<Rightarrow> Inl e
      | (Inr out, st') \<Rightarrow>
          (case runSigner K F signing timestamp st' cs of
             Inl e \<Rightarrow> Inl e
           | Inr (outs, st'') \<Rightarrow> Inr (out # outs, st'')))"

fun callSigner ::
  "crypto \<Rightarrow> framing \<Rightarrow> signing_data \<Rightarrow> jsstring \<Rightarrow> signer_state \<Rightarrow> body option list
     \<Rightarrow> (error + jsstring) list \<times> signer_state" where
  "callSigner K F signing timestamp st [] = ([], st)"
| "callSigner K F signing timestamp st (c # cs) =
     (case chunkSigner K F signing timestamp st c of
        (r, st') \<Rightarrow>
          (case callSigner K F signing timestamp st' cs of
             (rs, st'') \<Rightarrow> (r # rs, st'')))"
section \<open>Notions used to state the properties of the chunk signer\<close>

text \<open>The length of a chunk as an integer, 0 where it has none.\<close>

definition bytesOf :: "body option \<Rightarrow> int" where
  "bytesOf c = (case chunkLen c of Some (Num n) \<Rightarrow> n | _ \<Rightarrow> 0)"

text \<open>The states that calls can reach when the body is \<open>B\<close> bytes and a chunk \<open>C\<close> bytes:
  \<open>dataCount\<close> is a multiple of the chunk length or the whole body.\<close>

definition signerInv :: "int \<Rightarrow> int \<Rightarrow> signer_state \<Rightarrow> bool" where
  "signerInv B C st =
     (case dataCount st of
        Num d \<Rightarrow> 0 \<le> d \<and> d \<le> B \<and> (d = B \<or> d mod C = 0) \<and> (isDone st \<longrightarrow> d = B)
      | _ \<Rightarrow> False)"

text \<open>The lengths and frame headers of the calls that a state still expects, in order.\<close>

definition remaining :: "int \<Rightarrow> int \<Rightarrow> framing \<Rightarrow> signer_state \<Rightarrow> (number \<times> jsstring) list" where
  "remaining B C F st =
     (case dataCount st of
        Num d \<Rightarrow>
          if isDone st then []
          else replicate (nat ((B - d) div C)) (Num C, chunkHeader F)
               @ (if (B - d) mod C \<noteq> 0 then [(lastLength F, lastHeader F)] else [])
               @ [(Num 0, finalHeader F)]
      | _ \<Rightarrow> [])"

text \<open>The call sequence of a conforming driver, in the integers: \<open>chunks = B div C\<close> full
  chunks, the short chunk of \<open>lastLength = B - chunks * C\<close> bytes if that is positive, and
  the terminal marker.\<close>

definition conformingLengths :: "int \<Rightarrow> int \<Rightarrow> int list" where
  "conformingLengths B C =
     replicate (nat (B div C)) C
     @ (if 0 < B - (B div C) * C then [B - (B div C) * C] else []) @ [0]"

definition conformingCalls :: "int \<Rightarrow> int \<Rightarrow> nat" where
  "conformingCalls B C = nat (B div C) + (if 0 < B - (B div C) * C then 1 else 0) + 1"

text \<open>The length that a call expects once \<open>d\<close> bytes are signed, in the integers: the chunk
  length while that much is left, else the last length if the body is not complete, else 0.\<close>

definition expectedLength :: "int \<Rightarrow> int \<Rightarrow> int \<Rightarrow> int" where
  "expectedLength B C d =
     (if C \<le> B - d then C else if d \<noteq> B then B - (B div C) * C else 0)"

text \<open>The sum of the lengths of the chunks whose calls returned.\<close>

fun acceptedBytes :: "body option list \<Rightarrow> (error + jsstring) list \<Rightarrow> int" where
  "acceptedBytes (c # cs) (Inr out # rs) = bytesOf c + acceptedBytes cs rs"
| "acceptedBytes (c # cs) (Inl e # rs) = acceptedBytes cs rs"
| "acceptedBytes _ _ = 0"

text \<open>Stand-ins to evaluate the model on concrete inputs: a hash and a MAC with 32-byte
  results, and an engine that renders no digit beyond the safe integers.\<close>

definition stubCrypto :: crypto where
  "stubCrypto = \<lparr> sha256 = (\<lambda>b. replicate 32 0), hmac_sha256 = (\<lambda>k m. replicate 32 0) \<rparr>"

definition stubFormat :: numberFormat where
  "stubFormat = \<lparr> radix16 = (\<lambda>n. []), decimal = (\<lambda>n. []) \<rparr>"

text \<open>
  The framing string of one call as the specification words it: the leading CRLF left out on
  the first call, the hexadecimal length, the signature, a CRLF, and one more CRLF on the
  terminal marker. \<open>frames\<close> chains the signatures over a list of chunks.
\<close>

definition frame :: "numberFormat \<Rightarrow> bool \<Rightarrow> int \<Rightarrow> jsstring \<Rightarrow> jsstring" where
  "frame N first len sig =
     (if first then [] else CRLF) @ toString16 N (Num len) @ str '';chunk-signature='' @ sig @ CRLF
     @ (if len = 0 then CRLF else [])"

fun frames ::
  "numberFormat \<Rightarrow> crypto \<Rightarrow> signing_data \<Rightarrow> jsstring \<Rightarrow> bool \<Rightarrow> jsstring \<Rightarrow> body option list
     \<Rightarrow> jsstring list" where
  "frames N K sg ts first prev [] = []"
| "frames N K sg ts first prev (c # cs) =
     (let s = signS3Chunk K prev sg ts c
      in frame N first (bytesOf c) s # frames N K sg ts False s cs)"

text \<open>A string of lowercase hexadecimal digits.\<close>

definition isHex :: "jsstring \<Rightarrow> bool" where
  "isHex s = (set s \<subseteq> set (str ''0123456789abcdef''))"

text \<open>
  The total length as the specification words it, in the integers: the body, and for every
  full chunk, for the short chunk if there is one and for the terminal marker the length of
  the frame header, 64 signature characters and 4 characters of the two CRLF.
\<close>

definition overhead :: "int \<Rightarrow> int" where
  "overhead len = int (length (natToHex (nat len) @ str '';chunk-signature='')) + 64 + 4"

definition declaredTotal :: "int \<Rightarrow> int \<Rightarrow> int" where
  "declaredTotal B C =
     B + (B div C) * overhead C
     + (if 0 < B - (B div C) * C then overhead (B - (B div C) * C) else 0)
     + overhead 0"

section \<open>core: key derivation and its cache\<close>

definition getSigningData :: "crypto \<Rightarrow> jsstring \<Rightarrow> jsstring \<Rightarrow> jsstring \<Rightarrow> jsstring \<Rightarrow> signing_data" where
  "getSigningData K dateStamp secretKey regionName serviceName =
     (let dateStamp' = take 8 dateStamp;
          parts = [dateStamp', regionName, serviceName, str ''aws4_request''];
          key0 = utf8 (str ''AWS4'' @ secretKey)
      in \<lparr> key = foldl (\<lambda>k part. hmac_sha256 K k (utf8 part)) key0 parts,
           scope = join (str ''/'') parts \<rparr>)"

text \<open>
  The two variables that the function made by \<open>makeSimpleCache\<close> closes over; \<open>None\<close> is
  \<open>undefined\<close>.
\<close>

record cache_state =
  cacheKey :: "jsstring option"
  cacheValue :: "signing_data option"

definition makeSimpleCache :: cache_state where
  "makeSimpleCache = \<lparr> cacheKey = None, cacheValue = None \<rparr>"

definition cached_getSigningData ::
  "crypto \<Rightarrow> cache_state \<Rightarrow> jsstring \<Rightarrow> jsstring \<Rightarrow> jsstring \<Rightarrow> jsstring
     \<Rightarrow> signing_data option \<times> cache_state" where
  "cached_getSigningData K cs a b c d =
     (let a' = take 8 a;
          nkey = join (str ''/'') [a', b, c, d];
          cs' = (if cacheKey cs \<noteq> Some nkey
                 then \<lparr> cacheKey = Some nkey, cacheValue = Some (getSigningData K a' b c d) \<rparr>
                 else cs)
      in (cacheValue cs', cs'))"

text \<open>Sequential calls of the cached function, each on the state the one before left.\<close>

fun cachedCalls ::
  "crypto \<Rightarrow> cache_state \<Rightarrow> (jsstring \<times> jsstring \<times> jsstring \<times> jsstring) list
     \<Rightarrow> signing_data option list" where
  "cachedCalls K cs [] = []"
| "cachedCalls K cs ((a, b, c, d) # rest) =
     (case cached_getSigningData K cs a b c d of
        (v, cs') \<Rightarrow> v # cachedCalls K cs' rest)"

section \<open>http: escaping and the canonical query\<close>

definition escapeByte :: "8 word \<Rightarrow> jsstring" where
  "escapeByte x =
     (if (0x61 \<le> (x OR 0x20) \<and> (x OR 0x20) \<le> 0x7A) \<or> (0x30 \<le> x \<and> x \<le> 0x39)
         \<or> x = 0x2D \<or> x = 0x2E \<or> x = 0x5F \<or> x = 0x7E
      then [of_nat (unat x)]
      else [of_char CHR ''%'',
            of_char (''0123456789ABCDEF'' ! unat (drop_bit 4 x)),
            of_char (''0123456789ABCDEF'' ! unat (x AND 0xF))])"

definition escape :: "jsstring \<Rightarrow> jsstring" where
  "escape s = concat (map escapeByte (utf8 s))"

text \<open>
  A \<open>URLSearchParams\<close> is a list of name and value pairs; a query given as a string or an
  object is turned into one by Node's constructor, which is not part of the repository.
\<close>

type_synonym searchParams = "(jsstring \<times> jsstring) list"

definition getAll :: "searchParams \<Rightarrow> jsstring \<Rightarrow> jsstring list" where
  "getAll q k = map snd (filter (\<lambda>p. fst p = k) q)"

definition uniq :: "'a list \<Rightarrow> 'a list" where
  \<comment> \<open>\<open>Array.from(new Set(xs))\<close>: the first occurrence of each element, in order\<close>
  "uniq xs = foldl (\<lambda>acc x. if x \<in> set acc then acc else acc @ [x]) [] xs"

definition canonicalQueryParts :: "searchParams \<Rightarrow> jsstring list" where
  \<comment> \<open>the array \<open>parts\<close> at the end of the loop of \<open>getCanonicalQuery\<close>\<close>
  "canonicalQueryParts q =
     concat (map (\<lambda>k. if k = [] then []
                        else map (\<lambda>v. (escape k @ str ''='') @ escape v) (sort (getAll q k)))
                 (sort (uniq (map fst q))))"

definition getCanonicalQuery :: "searchParams \<Rightarrow> jsstring" where
  "getCanonicalQuery q = join (str ''&'') (canonicalQueryParts q)"

section \<open>http: the Authorization header\<close>

record authorization =
  algorithm :: jsstring
  credential :: jsstring
  signedHeaders :: jsstring
  signatureBuf :: buffer  \<comment> \<open>the field \<open>signature\<close>, a \<open>Buffer\<close>\<close>

definition buildAuthorization :: "authorization \<Rightarrow> jsstring" where
  "buildAuthorization data =
     (let fields' = [str ''Credential='' @ credential data,
                    str ''SignedHeaders='' @ signedHeaders data,
                    str ''Signature='' @ bufferToHex (signatureBuf data)]
      in algorithm data @ str '' '' @ join (str '', '') fields')"

definition isSpace :: "16 word \<Rightarrow> bool" where
  \<comment> \<open>the white space and line terminators that \<open>trim\<close> and \<open>\s\<close> remove\<close>
  "isSpace c =
     (c \<in> {0x9, 0xA, 0xB, 0xC, 0xD, 0x20, 0xA0, 0x1680, 0x2028, 0x2029, 0x202F, 0x205F, 0x3000, 0xFEFF}
      \<or> (0x2000 \<le> c \<and> c \<le> 0x200A))"

definition trimLeft :: "jsstring \<Rightarrow> jsstring" where
  "trimLeft s = dropWhile isSpace s"

definition trim :: "jsstring \<Rightarrow> jsstring" where
  "trim s = rev (dropWhile isSpace (rev (dropWhile isSpace s)))"

definition split1 :: "jsstring \<Rightarrow> 16 word \<Rightarrow> error + (jsstring \<times> jsstring)" where
  \<comment> \<open>the local \<open>split1\<close> of \<open>parseAuthorization\<close>: a split at the first \<open>token\<close>\<close>
  "split1 x token =
     (if token \<notin> set x then Inl InvalidAuthorizationStructure
      else Inr (takeWhile (\<lambda>c. c \<noteq> token) x, tl (dropWhile (\<lambda>c. c \<noteq> token) x)))"

fun splitOn :: "'a \<Rightarrow> 'a list \<Rightarrow> 'a list list" where
  \<comment> \<open>\<open>String.prototype.split\<close> with a separator of one character\<close>
  "splitOn c [] = [[]]"
| "splitOn c (x # xs) =
     (if x = c then [] # splitOn c xs
      else (case splitOn c xs of y # ys \<Rightarrow> (x # y) # ys | [] \<Rightarrow> [[x]]))"

fun mapSplit1 :: "jsstring list \<Rightarrow> error + (jsstring \<times> jsstring) list" where
  \<comment> \<open>\<open>rawFields.map(x => split1(x, '='))\<close>, which throws at the first field without \<open>=\<close>\<close>
  "mapSplit1 [] = Inr []"
| "mapSplit1 (x # xs) =
     (case split1 x (of_char CHR ''='') of
        Inl e \<Rightarrow> Inl e
      | Inr p \<Rightarrow> (case mapSplit1 xs of Inl e \<Rightarrow> Inl e | Inr ps \<Rightarrow> Inr (p # ps)))"

definition mapGet :: "(jsstring \<times> jsstring) list \<Rightarrow> jsstring \<Rightarrow> jsstring option" where
  \<comment> \<open>\<open>new Map(pairs).get(k)\<close>: a later pair replaces an earlier one with the same key\<close>
  "mapGet pairs k = map_of (rev pairs) k"

definition isHexDigit :: "16 word \<Rightarrow> bool" where
  \<comment> \<open>the class \<open>[0-9a-f]\<close>\<close>
  "isHexDigit c = ((0x30 \<le> c \<and> c \<le> 0x39) \<or> (0x61 \<le> c \<and> c \<le> 0x66))"

fun signatureRegex :: "jsstring \<Rightarrow> bool" where
  \<comment> \<open>\<open>/^([0-9a-f]{2})+$/.test(s)\<close>\<close>
  "signatureRegex [a, b] = (isHexDigit a \<and> isHexDigit b)"
| "signatureRegex (a # b # rest) = (isHexDigit a \<and> isHexDigit b \<and> signatureRegex rest)"
| "signatureRegex _ = False"

definition hexValue :: "16 word \<Rightarrow> nat option" where
  "hexValue c =
     (if 0x30 \<le> c \<and> c \<le> 0x39 then Some (unat c - 0x30)
      else if 0x61 \<le> c \<and> c \<le> 0x66 then Some (unat c - 0x61 + 10)
      else if 0x41 \<le> c \<and> c \<le> 0x46 then Some (unat c - 0x41 + 10)
      else None)"

fun bufferFromHex :: "jsstring \<Rightarrow> buffer" where
  \<comment> \<open>\<open>Buffer.from(s, 'hex')\<close>: decoding stops at the first pair that is not hexadecimal\<close>
  "bufferFromHex (a # b # rest) =
     (case (hexValue a, hexValue b) of
        (Some x, Some y) \<Rightarrow> of_nat (16 * x + y) # bufferFromHex rest
      | _ \<Rightarrow> [])"
| "bufferFromHex _ = []"

definition parseAuthorization :: "jsstring \<Rightarrow> error + authorization" where
  "parseAuthorization header =
     (case split1 (trimLeft header) (of_char CHR '' '') of
        Inl e \<Rightarrow> Inl e
      | Inr (part0, part1) \<Rightarrow>
          (let rawFields = map trim (splitOn (of_char CHR '','') part1) in
           case mapSplit1 rawFields of
             Inl e \<Rightarrow> Inl e
           | Inr fields' \<Rightarrow>
               (case (mapGet fields' (str ''Signature''), mapGet fields' (str ''Credential''),
                      mapGet fields' (str ''SignedHeaders'')) of
                  (Some sig, Some cred, Some sh) \<Rightarrow>
                    if \<not> signatureRegex sig then Inl InvalidSignatureFormat
                    else Inr \<lparr> algorithm = trim part0, credential = cred, signedHeaders = sh,
                               signatureBuf = bufferFromHex sig \<rparr>
                | _ \<Rightarrow> Inl MissingFields)))"

text \<open>
  The canonical query as the specification words it: the empty keys dropped, the unique keys
  sorted by code unit, the values of each key sorted, rendered as \<open>escapedKey=escapedValue\<close>
  and joined by \<open>&\<close>.
\<close>

definition canonicalQuerySpec :: "searchParams \<Rightarrow> jsstring" where
  "canonicalQuerySpec q =
     join (str ''&'')
       (concat (map (\<lambda>k. map (\<lambda>v. escape k @ str ''='' @ escape v) (sort (getAll q k)))
                    (sorted_list_of_set {k \<in> fst ` set q. k \<noteq> []})))"

text \<open>
  The first half of \<open>parseAuthorization\<close>: the algorithm part and the fields that a header
  carries, as the code splits it.
\<close>

definition headerFields :: "jsstring \<Rightarrow> error + (jsstring \<times> (jsstring \<times> jsstring) list)" where
  "headerFields header =
     (case split1 (trimLeft header) (of_char CHR '' '') of
        Inl e \<Rightarrow> Inl e
      | Inr (part0, part1) \<Rightarrow>
          (case mapSplit1 (map trim (splitOn (of_char CHR '','') part1)) of
             Inl e \<Rightarrow> Inl e
           | Inr fs \<Rightarrow> Inr (trim part0, fs)))"

text \<open>The value of the last field with a name, the valid signatures, and a header rendered from
  an algorithm and a list of fields.\<close>

definition lastValue :: "(jsstring \<times> jsstring) list \<Rightarrow> jsstring \<Rightarrow> jsstring option" where
  "lastValue fs k = (case rev (filter (\<lambda>p. fst p = k) fs) of [] \<Rightarrow> None | p # _ \<Rightarrow> Some (snd p))"

definition validSignature :: "jsstring \<Rightarrow> bool" where
  "validSignature s = (s \<noteq> [] \<and> even (length s) \<and> list_all isHexDigit s)"

definition renderField :: "jsstring \<times> jsstring \<Rightarrow> jsstring" where
  "renderField f = fst f @ str ''='' @ snd f"

definition renderHeader :: "jsstring \<Rightarrow> (jsstring \<times> jsstring) list \<Rightarrow> jsstring" where
  "renderHeader alg fs = alg @ str '' '' @ join (str '', '') (map renderField fs)"

text \<open>The algorithms and fields that survive the trimming and splitting of the parser.\<close>

definition startsWithSpace :: "jsstring \<Rightarrow> bool" where
  "startsWithSpace s = (case s of [] \<Rightarrow> False | c # _ \<Rightarrow> isSpace c)"

definition endsWithSpace :: "jsstring \<Rightarrow> bool" where
  "endsWithSpace s = startsWithSpace (rev s)"

definition wfAlgorithm :: "jsstring \<Rightarrow> bool" where
  "wfAlgorithm alg = (alg \<noteq> [] \<and> of_char CHR '' '' \<notin> set alg \<and> \<not> startsWithSpace alg \<and> \<not> endsWithSpace alg)"

definition wfField :: "jsstring \<times> jsstring \<Rightarrow> bool" where
  "wfField f = (of_char CHR '','' \<notin> set (fst f) \<and> of_char CHR '','' \<notin> set (snd f)
     \<and> of_char CHR ''='' \<notin> set (fst f) \<and> \<not> startsWithSpace (fst f) \<and> \<not> endsWithSpace (snd f))"

text \<open>The code units of \<open>0123456789abcdef\<close>.\<close>

abbreviation HEX :: "16 word list" where
  "HEX \<equiv> [48, 49, 50, 51, 52, 53, 54, 55, 56, 57, 97, 98, 99, 100, 101, 102]"

text \<open>
  The well-formed records as the claim words them, and with what the round trip needs
  besides: an algorithm that is not empty and has no white space at its ends, a credential
  and signed headers that do not end in white space.
\<close>

definition claimedWellFormed :: "authorization \<Rightarrow> bool" where
  "claimedWellFormed x =
     (of_char CHR '' '' \<notin> set (algorithm x)
      \<and> of_char CHR '','' \<notin> set (credential x) \<and> of_char CHR ''='' \<notin> set (credential x)
      \<and> of_char CHR '','' \<notin> set (signedHeaders x) \<and> of_char CHR ''='' \<notin> set (signedHeaders x)
      \<and> signatureBuf x \<noteq> [])"

definition wellFormed :: "authorization \<Rightarrow> bool" where
  "wellFormed x =
     (claimedWellFormed x
      \<and> algorithm x \<noteq> [] \<and> \<not> startsWithSpace (algorithm x) \<and> \<not> endsWithSpace (algorithm x)
      \<and> \<not> endsWithSpace (credential x) \<and> \<not> endsWithSpace (signedHeaders x))"

section \<open>The cache of the signing data: arguments without a separator\<close>

text \<open>The date, the secret and the region of a call hold no \<open>/\<close>; and what the closure of
  \<open>makeSimpleCache\<close> holds after calls of that kind.\<close>

definition slashFree :: "jsstring \<times> jsstring \<times> jsstring \<times> jsstring \<Rightarrow> bool" where
  "slashFree t = (case t of (a, b, c, d) \<Rightarrow>
     of_char CHR ''/'' \<notin> set a \<and> of_char CHR ''/'' \<notin> set b \<and> of_char CHR ''/'' \<notin> set c)"

definition cacheInv :: "crypto \<Rightarrow> cache_state \<Rightarrow> bool" where
  "cacheInv K cs = (cacheKey cs = None \<or>
     (\<exists>a b c d. slashFree (a, b, c, d) \<and> cacheKey cs = Some (join (str ''/'') [take 8 a, b, c, d])
        \<and> cacheValue cs = Some (getSigningData K a b c d)))"

section \<open>http: the canonical query in \<open>src/http.ts\<close>\<close>

text \<open>The TypeScript file \<open>src/http.ts\<close> of the repository differs from the compiled module
  \<open>dist/http.js\<close>, which the package exports: its loop over the keys leaves the function at
  an empty key (\<open>return\<close>, the result being \<open>undefined\<close>, here \<open>None\<close>) where the compiled
  module goes on to the next key (\<open>continue\<close>).\<close>

fun queryLoop_ts :: "searchParams \<Rightarrow> jsstring list \<Rightarrow> jsstring list \<Rightarrow> jsstring option" where
  "queryLoop_ts q parts [] = Some (join (str ''&'') parts)"
| "queryLoop_ts q parts (k # ks) =
     (if k = [] then None
      else queryLoop_ts q (parts @ map (\<lambda>v. (escape k @ str ''='') @ escape v) (sort (getAll q k))) ks)"

definition getCanonicalQuery_ts :: "searchParams \<Rightarrow> jsstring option" where
  "getCanonicalQuery_ts q = queryLoop_ts q [] (sort (uniq (map fst q)))"

section \<open>util/request and http: signing a request\<close>

text \<open>
  What the code takes from the JavaScript library and from the clock is a parameter of the
  model: the case mappings of strings, \<open>querystring.unescape\<close> (called by \<open>map\<close>, so with
  the index as its second argument), the \<open>URL\<close> class, and the endpoint inference
  \<open>parseHost\<close>, whose regular expressions are not modelled (no property below depends on
  what it returns). The clock is the ISO string of \<open>new Date()\<close>, an argument on its own.
\<close>

record url_value =
  url_host :: jsstring
  url_pathname :: jsstring
  url_params :: searchParams

record runtime =
  toLowerCase :: "jsstring \<Rightarrow> jsstring"
  toUpperCase :: "jsstring \<Rightarrow> jsstring"
  unescape :: "jsstring \<Rightarrow> nat \<Rightarrow> jsstring"
  newURL :: "jsstring \<Rightarrow> error + url_value"
  urlToString :: "url_value \<Rightarrow> jsstring"
  parseHost :: "jsstring \<Rightarrow> error + (jsstring \<times> jsstring)"  \<comment> \<open>\<open>(regionName, serviceName)\<close>\<close>

definition formatTimestamp :: "jsstring \<Rightarrow> error + jsstring" where
  \<comment> \<open>\<open>formatTimestamp()\<close> on the ISO string of the current date\<close>
  "formatTimestamp isoNow =
     (if length isoNow \<noteq> 24 then Inl UnexpectedISOString
      else Inr (filter (\<lambda>c. c \<noteq> of_char CHR '':'' \<and> c \<noteq> of_char CHR ''-'') (take 19 isoNow) @ str ''Z''))"

definition MAIN_ALGORITHM :: jsstring where
  "MAIN_ALGORITHM = str ''AWS4-HMAC-SHA256''"

text \<open>
  An object with string keys is the list of its entries in the order of \<open>Object.keys\<close>;
  an assignment replaces the value of a key in place or appends a new entry.
\<close>

fun objSet :: "('k \<times> 'v) list \<Rightarrow> 'k \<Rightarrow> 'v \<Rightarrow> ('k \<times> 'v) list" where
  "objSet [] k v = [(k, v)]"
| "objSet ((k', v') # rest) k v = (if k' = k then (k, v) # rest else (k', v') # objSet rest k v)"

definition objSpread :: "('k \<times> 'v) list \<Rightarrow> ('k \<times> 'v) list \<Rightarrow> ('k \<times> 'v) list" where
  \<comment> \<open>\<open>{ ...a, ...b }\<close>\<close>
  "objSpread a b = foldl (\<lambda>acc (k, v). objSet acc k v) a b"

definition objDelete :: "('k \<times> 'v) list \<Rightarrow> 'k \<Rightarrow> ('k \<times> 'v) list" where
  "objDelete obj k = filter (\<lambda>p. fst p \<noteq> k) obj"

datatype hvalue =
    HString jsstring
  | HArray "jsstring list"
  | HNumber int
  | HUndefined

type_synonym headers = "(jsstring \<times> hvalue) list"
type_synonym jsobject = "(jsstring \<times> jsstring) list"

fun natToDec :: "nat \<Rightarrow> jsstring" where
  "natToDec n = (if n < 10 then [of_nat (48 + n)] else natToDec (n div 10) @ [of_nat (48 + n mod 10)])"

declare natToDec.simps [simp del]

fun valueToString :: "hvalue \<Rightarrow> jsstring" where
  \<comment> \<open>\<open>value + ''\<close> for a value that is not an array\<close>
  "valueToString (HString s) = s"
| "valueToString (HNumber n) =
     (if n < 0 then of_char CHR ''-'' # natToDec (nat (- n)) else natToDec (nat n))"
| "valueToString HUndefined = str ''undefined''"
| "valueToString (HArray xs) = join (str '','') xs"

fun normalizeValue :: "hvalue \<Rightarrow> jsstring" where
  "normalizeValue (HArray xs) = join (str '','') xs"
| "normalizeValue v = valueToString v"

fun findHeader :: "runtime \<Rightarrow> headers \<Rightarrow> jsstring \<Rightarrow> (jsstring \<times> jsstring) option" where
  \<comment> \<open>the loop of \<open>getHeader\<close>\<close>
  "findHeader E [] name = None"
| "findHeader E ((k, v) # rest) name =
     (if toLowerCase E k = name then Some (k, normalizeValue v) else findHeader E rest name)"

definition getHeader :: "runtime \<Rightarrow> headers option \<Rightarrow> jsstring \<Rightarrow> jsstring \<times> jsstring option" where
  "getHeader E hdrs name =
     (let name' = toLowerCase E name in
      case hdrs of
        None \<Rightarrow> (name', None)
      | Some h \<Rightarrow> (case findHeader E h name' of
                    Some (k, v) \<Rightarrow> (k, Some v)
                  | None \<Rightarrow> (name', None)))"

fun truthyStr :: "jsstring option \<Rightarrow> bool" where
  "truthyStr None = False"
| "truthyStr (Some s) = (s \<noteq> [])"

subsection \<open>The canonical request\<close>

record canonicalOptions =
  dontNormalize :: bool
  onlyEncodeOnce :: bool

fun normalizeParts :: "jsstring list \<Rightarrow> jsstring list \<Rightarrow> bool \<Rightarrow> jsstring list \<times> bool" where
  \<comment> \<open>the loop of \<open>getCanonicalURI\<close> over \<open>newParts\<close> and \<open>endingSlash\<close>\<close>
  "normalizeParts [] newParts endingSlash = (newParts, endingSlash)"
| "normalizeParts (part # rest) newParts endingSlash =
     (if part = str ''..'' then normalizeParts rest (butlast newParts) True
      else if \<not> (part = [] \<or> part = str ''.'') then normalizeParts rest (newParts @ [part]) False
      else normalizeParts rest newParts True)"

definition getCanonicalURI :: "runtime \<Rightarrow> jsstring \<Rightarrow> 'a canonicalOptions_scheme \<Rightarrow> jsstring" where
  "getCanonicalURI E pathName opts =
     (let segs = splitOn (of_char CHR ''/'') pathName;
          parts0 = map (\<lambda>(part, i). unescape E part i) (zip segs [0 ..< length segs]);
          parts1 = (if \<not> dontNormalize opts then
                      (case normalizeParts parts0 [] True of
                         (newParts, endingSlash) \<Rightarrow> [[]] @ newParts @ (if endingSlash then [[]] else []))
                    else parts0);
          parts2 = map escape parts1;
          parts3 = (if \<not> onlyEncodeOnce opts then map escape parts2 else parts2)
      in join (str ''/'') parts3)"

function collapseSpaces :: "jsstring \<Rightarrow> jsstring" where
  \<comment> \<open>\<open>x.replace(/\s+/g, ' ')\<close>\<close>
  "collapseSpaces [] = []"
| "collapseSpaces (c # cs) =
     (if isSpace c then 32 # collapseSpaces (dropWhile isSpace cs) else c # collapseSpaces cs)"
  by pat_completeness auto
termination
  by (relation "measure length") (auto simp: length_dropWhile_le le_imp_less_Suc)

definition trimHeader :: "jsstring \<Rightarrow> jsstring" where
  \<comment> \<open>the local \<open>trim\<close> of \<open>getCanonicalHeaders\<close>\<close>
  "trimHeader x = collapseSpaces (trim x)"

fun canonicalValue :: "hvalue \<Rightarrow> jsstring" where
  "canonicalValue (HArray xs) = join (str '','') (map trimHeader xs)"
| "canonicalValue v = trimHeader (valueToString v)"

fun normalizeHeaders :: "runtime \<Rightarrow> headers \<Rightarrow> jsobject \<Rightarrow> error + jsobject" where
  \<comment> \<open>the loop of \<open>getCanonicalHeaders\<close> over \<open>normalized\<close>\<close>
  "normalizeHeaders E [] normalized = Inr normalized"
| "normalizeHeaders E ((k, v) # rest) normalized =
     (let name = toLowerCase E k in
      if name \<in> fst ` set normalized then Inl (DuplicateHeaders name)
      else normalizeHeaders E rest (objSet normalized name (canonicalValue v)))"

definition getCanonicalHeaders :: "runtime \<Rightarrow> headers \<Rightarrow> error + (jsstring \<times> jsstring)" where
  \<comment> \<open>returns \<open>[canonicalHeaders, signedHeaders]\<close>\<close>
  "getCanonicalHeaders E hdrs =
     (case normalizeHeaders E hdrs [] of
        Inl e \<Rightarrow> Inl e
      | Inr normalized \<Rightarrow>
          (let signedHeaders' = sort (map fst normalized);
               canonicalHeaders = concat (map (\<lambda>k. k @ str '':''
                   @ (case map_of normalized k of Some v \<Rightarrow> v | None \<Rightarrow> str ''undefined'')
                   @ str ''\<newline>'') signedHeaders')
           in Inr (canonicalHeaders, join (str '';'') signedHeaders')))"

definition getCanonical ::
  "runtime \<Rightarrow> crypto \<Rightarrow> jsstring \<Rightarrow> jsstring \<Rightarrow> searchParams \<Rightarrow> jsstring \<times> jsstring \<Rightarrow> body option
     \<Rightarrow> 'a canonicalOptions_scheme \<Rightarrow> jsstring" where
  "getCanonical E K meth pathname q cheaders bdy opts =
     (case cheaders of (canonicalHeaders, signedHeaders') \<Rightarrow>
        join (str ''\<newline>'')
          [trim (toUpperCase E meth), getCanonicalURI E pathname opts, getCanonicalQuery q,
           canonicalHeaders, signedHeaders', hashBody K bdy])"

subsection \<open>Signing\<close>

record credentials =
  accessKey :: jsstring
  secretKey :: jsstring
  regionName :: jsstring
  serviceName :: jsstring

record signOptions = canonicalOptions +
  query :: bool
  set_opt :: bool  \<comment> \<open>the option \<open>set\<close>\<close>
  setContentHash :: bool
  getSigningData_opt :: "(jsstring \<Rightarrow> jsstring \<Rightarrow> jsstring \<Rightarrow> jsstring \<Rightarrow> signing_data) option"

definition getSigning :: "crypto \<Rightarrow> jsstring \<Rightarrow> credentials \<Rightarrow> signOptions \<Rightarrow> signing_data \<times> jsstring" where
  \<comment> \<open>returns \<open>(signing, credential)\<close>\<close>
  "getSigning K dateStamp creds opts =
     (let derive = (case getSigningData_opt opts of Some f \<Rightarrow> f | None \<Rightarrow> getSigningData K);
          signing = derive dateStamp (secretKey creds) (regionName creds) (serviceName creds)
      in (signing, accessKey creds @ str ''/'' @ scope signing))"

definition qGet :: "searchParams \<Rightarrow> jsstring \<Rightarrow> jsstring option" where
  "qGet q k = map_of q k"

fun qSet :: "searchParams \<Rightarrow> jsstring \<Rightarrow> jsstring \<Rightarrow> searchParams" where
  \<comment> \<open>\<open>URLSearchParams.set\<close>: the first pair of the name takes the value, the others go\<close>
  "qSet [] k v = [(k, v)]"
| "qSet ((k', v') # rest) k v =
     (if k' = k then (k, v) # filter (\<lambda>p. fst p \<noteq> k) rest else (k', v') # qSet rest k v)"

definition qDelete :: "searchParams \<Rightarrow> jsstring \<Rightarrow> searchParams" where
  "qDelete q k = filter (\<lambda>p. fst p \<noteq> k) q"

definition freshTimestamp :: "jsstring \<Rightarrow> bool \<Rightarrow> error + (jsstring \<times> jsobject)" where
  \<comment> \<open>the branch \<open>if (!timestamp)\<close> of \<open>signRequestRaw\<close>: the timestamp and \<open>result\<close>\<close>
  "freshTimestamp now isQuery =
     (case formatTimestamp now of
        Inl e \<Rightarrow> Inl e
      | Inr t \<Rightarrow> Inr (t, [(if isQuery then str ''X-Amz-Date'' else str ''x-amz-date'', t)]))"

definition signRequestRaw ::
  "runtime \<Rightarrow> crypto \<Rightarrow> jsstring \<Rightarrow> credentials \<Rightarrow> jsstring \<Rightarrow> jsstring \<Rightarrow> searchParams \<Rightarrow> headers
     \<Rightarrow> body option \<Rightarrow> signOptions \<Rightarrow> error + jsobject" where
  "signRequestRaw E K now creds meth pathname q hdrs bdy opts =
     (let isQuery = query opts;
          parameter = (if isQuery then str ''X-Amz-Signature''
                       else fst (getHeader E (Some hdrs) (str ''authorization'')));
          timestamp0 = (if isQuery then qGet q (str ''X-Amz-Date'')
                        else snd (getHeader E (Some hdrs) (str ''x-amz-date'')))
      in case (if truthyStr timestamp0 then Inr (case timestamp0 of Some t \<Rightarrow> t | None \<Rightarrow> [], [])
               else freshTimestamp now isQuery) of
           Inl e \<Rightarrow> Inl e
         | Inr (timestamp, result1) \<Rightarrow>
             (let hash = hashBody K bdy;
                  result2 = (if \<not> isQuery \<and> setContentHash opts
                             then objSet result1 (fst (getHeader E (Some hdrs) (str ''x-amz-content-sha256''))) hash
                             else result1);
                  signing = fst (getSigning K timestamp creds opts);
                  credential' = snd (getSigning K timestamp creds opts);
                  hdrs' = (if \<not> isQuery
                           then objDelete (objSpread hdrs (map (\<lambda>(k, v). (k, HString v)) result2)) parameter
                           else hdrs)
              in case getCanonicalHeaders E hdrs' of
                   Inl e \<Rightarrow> Inl e
                 | Inr cheaders \<Rightarrow>
                     (let result3 = (if isQuery
                            then objSet (objSet (objSet result2 (str ''X-Amz-Algorithm'') MAIN_ALGORITHM)
                                   (str ''X-Amz-Credential'') credential')
                                   (str ''X-Amz-SignedHeaders'') (snd cheaders)
                            else result2);
                          q' = (if isQuery
                            then qDelete (foldl (\<lambda>acc (k, v). qSet acc k v) q result3) parameter
                            else q);
                          creq = getCanonical E K meth pathname q' cheaders (Some (BodyHash hash None)) opts;
                          digest = bufferToHex (sha256 K (utf8 creq));
                          sig = signDigest K MAIN_ALGORITHM digest timestamp signing
                      in Inr (objSet result3 parameter
                                (if isQuery then bufferToHex sig
                                 else buildAuthorization \<lparr> algorithm = MAIN_ALGORITHM,
                                        credential = credential', signedHeaders = snd cheaders,
                                        signatureBuf = sig \<rparr>)))))"

text \<open>
  A stand-in for the library, to evaluate the model on concrete inputs: the case mappings on
  ASCII letters only, no percent-decoding, no URL parsing and no endpoint inference.
\<close>

definition stubRuntime :: runtime where
  "stubRuntime = \<lparr> toLowerCase = asciiLower, toUpperCase = asciiUpper, unescape = (\<lambda>s i. s),
       newURL = (\<lambda>s. Inl InvalidURL), urlToString = (\<lambda>u. []), parseHost = (\<lambda>h. Inl HostNotParsed) \<rparr>"

definition defaultOptions :: signOptions where
  "defaultOptions = \<lparr> dontNormalize = False, onlyEncodeOnce = False, query = False, set_opt = False,
       setContentHash = False, getSigningData_opt = None \<rparr>"

text \<open>An explicit timestamp is present: the \<open>X-Amz-Date\<close> header (the query parameter, when
  the query is signed) has a value that is not empty.\<close>

definition timestampGiven :: "runtime \<Rightarrow> signOptions \<Rightarrow> searchParams \<Rightarrow> headers \<Rightarrow> bool" where
  "timestampGiven E opts q hdrs =
     (if query opts then truthyStr (qGet q (str ''X-Amz-Date''))
      else truthyStr (snd (getHeader E (Some hdrs) (str ''x-amz-date''))))"

section \<open>http and s3: signing a request object\<close>

text \<open>
  \<open>signRequest\<close> and \<open>signS3Request\<close> work on objects that the caller owns and that may be
  shared: the url object of a request, its headers object and its \<open>URLSearchParams\<close>. These
  live in a store, by reference; a reference at or above \<open>nextRef\<close> is not yet allocated.
  The request object itself is passed and returned by value: \<open>signS3Request\<close> hands a copy
  of it to \<open>signRequest\<close>, and what \<open>signRequest\<close> assigns to the fields of that copy is
  lost, while what it writes through the references is not.
\<close>

record urlObject =
  host :: "jsstring option"
  pathname :: "jsstring option"
  searchParams :: "nat option"

datatype urlField = UrlString jsstring | UrlObject nat

record request =
  url :: urlField
  headers :: "nat option"
  httpMethod :: "jsstring option"  \<comment> \<open>the field named for the HTTP method\<close>
  body :: "body option"

record s3request = request +
  unsigned :: "bool option"

record heap =
  urls :: "nat \<Rightarrow> urlObject"
  headerObjs :: "nat \<Rightarrow> headers"
  paramObjs :: "nat \<Rightarrow> searchParams"
  nextRef :: nat

definition allocParams :: "heap \<Rightarrow> searchParams \<Rightarrow> nat \<times> heap" where
  \<comment> \<open>\<open>new URLSearchParams(...)\<close>\<close>
  "allocParams H v = (nextRef H, H \<lparr> paramObjs := (paramObjs H)(nextRef H := v), nextRef := Suc (nextRef H) \<rparr>)"

definition allocHeaders :: "heap \<Rightarrow> headers \<Rightarrow> nat \<times> heap" where
  "allocHeaders H v = (nextRef H, H \<lparr> headerObjs := (headerObjs H)(nextRef H := v), nextRef := Suc (nextRef H) \<rparr>)"

definition allocURL :: "heap \<Rightarrow> urlObject \<Rightarrow> nat \<times> heap" where
  "allocURL H v = (nextRef H, H \<lparr> urls := (urls H)(nextRef H := v), nextRef := Suc (nextRef H) \<rparr>)"

definition resolveURL :: "runtime \<Rightarrow> heap \<Rightarrow> urlField \<Rightarrow> error + (nat \<times> heap)" where
  \<comment> \<open>\<open>typeof url === 'string' ? new URL(url) : url\<close>\<close>
  "resolveURL E H u =
     (case u of
        UrlObject a \<Rightarrow> Inr (a, H)
      | UrlString s \<Rightarrow>
          (case newURL E s of
             Inl e \<Rightarrow> Inl e
           | Inr v \<Rightarrow>
               (case allocParams H (url_params v) of (p, H1) \<Rightarrow>
                  Inr (allocURL H1 \<lparr> host = Some (url_host v), pathname = Some (url_pathname v),
                                      searchParams = Some p \<rparr>))))"

definition urlValue :: "heap \<Rightarrow> nat \<Rightarrow> url_value" where
  \<comment> \<open>what \<open>url.toString()\<close> reads of a url object\<close>
  "urlValue H u =
     \<lparr> url_host = (case host (urls H u) of Some h \<Rightarrow> h | None \<Rightarrow> []),
       url_pathname = (case pathname (urls H u) of Some p \<Rightarrow> p | None \<Rightarrow> []),
       url_params = (case searchParams (urls H u) of Some p \<Rightarrow> paramObjs H p | None \<Rightarrow> []) \<rparr>"

subsection \<open>util/endpoint\<close>

definition DEFAULT_REGION :: jsstring where
  "DEFAULT_REGION = str ''us-east-1''"

definition formatHost :: "jsstring \<Rightarrow> jsstring option \<Rightarrow> jsstring" where
  \<comment> \<open>\<open>formatHost(serviceName, regionName)\<close>, without a port\<close>
  "formatHost service region =
     (let service' = (if service = str ''ses'' then str ''email'' else service);
          region' = (if truthyStr region then str ''.'' @ (case region of Some r \<Rightarrow> r | None \<Rightarrow> []) else [])
      in service' @ region' @ str ''.amazonaws.com'')"

subsection \<open>signRequest\<close>

text \<open>The credentials as the caller gives them: the region and the service may be missing.\<close>

record relaxedCredentials =
  accessKey' :: jsstring
  secretKey' :: jsstring
  regionName' :: "jsstring option"
  serviceName' :: "jsstring option"

definition spreadCredentials :: "jsstring \<times> jsstring \<Rightarrow> relaxedCredentials \<Rightarrow> credentials" where
  \<comment> \<open>\<open>{ regionName, serviceName, ...credentials }\<close>\<close>
  "spreadCredentials d c =
     \<lparr> accessKey = accessKey' c, secretKey = secretKey' c,
       regionName = (case regionName' c of Some r \<Rightarrow> r | None \<Rightarrow> fst d),
       serviceName = (case serviceName' c of Some s \<Rightarrow> s | None \<Rightarrow> snd d) \<rparr>"

definition resolveCredentials ::
  "runtime \<Rightarrow> heap \<Rightarrow> nat \<Rightarrow> relaxedCredentials \<Rightarrow> error + (credentials \<times> heap)" where
  \<comment> \<open>the part of \<open>signRequest\<close> under \<open>Detect url.host or serviceName / regionName\<close>\<close>
  "resolveCredentials E H u c =
     (if \<not> truthyStr (host (urls H u)) then
        (if \<not> truthyStr (serviceName' c) then Inl NoHostNorService
         else Inr (spreadCredentials (DEFAULT_REGION, []) c,
                   H \<lparr> urls := (urls H)(u := (urls H u)
                          \<lparr> host := Some (formatHost (case serviceName' c of Some s \<Rightarrow> s | None \<Rightarrow> [])
                                                     (regionName' c)) \<rparr>) \<rparr>))
      else if \<not> truthyStr (serviceName' c) \<or> \<not> truthyStr (regionName' c) then
        (case parseHost E (case host (urls H u) of Some h \<Rightarrow> h | None \<Rightarrow> []) of
           Inl e \<Rightarrow> Inl e
         | Inr p \<Rightarrow> Inr (spreadCredentials p c, H))
      else Inr (spreadCredentials ([], []) c, H))"

definition signRequest ::
  "runtime \<Rightarrow> crypto \<Rightarrow> jsstring \<Rightarrow> heap \<Rightarrow> relaxedCredentials \<Rightarrow> 'a request_scheme \<Rightarrow> signOptions
     \<Rightarrow> (error + jsobject) \<times> 'a request_scheme \<times> heap" where
  \<comment> \<open>what the call returns or throws, the request object and the store it leaves\<close>
  "signRequest E K now H c req opts =
     (case resolveURL E H (url req) of
        Inl e \<Rightarrow> (Inl e, req, H)
      | Inr (u, H1) \<Rightarrow>
          (case resolveCredentials E H1 u c of
             Inl e \<Rightarrow> (Inl e, req, H1)
           | Inr (creds, H2) \<Rightarrow>
               (let hdrs0 = map_option (headerObjs H2) (headers req);
                    hdrs1 = (if \<not> truthyStr (snd (getHeader E hdrs0 (str ''host'')))
                             then objSet (case hdrs0 of Some h \<Rightarrow> h | None \<Rightarrow> []) (str ''host'')
                                    (case host (urls H2 u) of Some h \<Rightarrow> HString h | None \<Rightarrow> HUndefined)
                             else (case hdrs0 of Some h \<Rightarrow> h | None \<Rightarrow> []));
                    qH = (case searchParams (urls H2 u) of Some p \<Rightarrow> (p, H2) | None \<Rightarrow> allocParams H2 []);
                    qref = fst qH;
                    H3 = snd qH;
                    meth = (if truthyStr (httpMethod req) then (case httpMethod req of Some m \<Rightarrow> m | None \<Rightarrow> [])
                            else str ''GET'');
                    path = (if truthyStr (pathname (urls H3 u))
                            then (case pathname (urls H3 u) of Some p \<Rightarrow> p | None \<Rightarrow> [])
                            else str ''/'')
                in case signRequestRaw E K now creds meth path (paramObjs H3 qref) hdrs1 (body req) opts of
                     Inl e \<Rightarrow> (Inl e, req, H3)
                   | Inr result \<Rightarrow>
                       if set_opt opts then
                         (if query opts then
                            (let H4 = (if searchParams (urls H3 u) = None
                                       then H3 \<lparr> urls := (urls H3)(u := (urls H3 u) \<lparr> searchParams := Some qref \<rparr>) \<rparr>
                                       else H3);
                                 H5 = H4 \<lparr> paramObjs := (paramObjs H4)
                                        (qref := foldl (\<lambda>acc (k, v). qSet acc k v) (paramObjs H4 qref) result) \<rparr>
                             in (Inr result,
                                 (case url req of
                                    UrlString s \<Rightarrow> req \<lparr> url := UrlString (urlToString E (urlValue H5 u)) \<rparr>
                                  | UrlObject a \<Rightarrow> req),
                                 H5))
                          else
                            (let rhH = (case headers req of Some h \<Rightarrow> (h, H3) | None \<Rightarrow> allocHeaders H3 []);
                                 rh = fst rhH;
                                 H4 = snd rhH
                             in (Inr result, req \<lparr> headers := Some rh \<rparr>,
                                 H4 \<lparr> headerObjs := (headerObjs H4)
                                        (rh := foldl (\<lambda>acc (k, v). objSet acc k (HString v)) (headerObjs H4 rh) result) \<rparr>)))
                       else (Inr result, req, H3))))"

subsection \<open>signS3Request\<close>

definition EXPIRES_MAX :: jsstring where
  \<comment> \<open>\<open>EXPIRES_MAX.toString()\<close>\<close>
  "EXPIRES_MAX = str ''604800''"

definition PAYLOAD_UNSIGNED :: jsstring where
  "PAYLOAD_UNSIGNED = str ''UNSIGNED-PAYLOAD''"

text \<open>
  The options as the caller of \<open>signS3Request\<close> gives them: a flag of \<open>S3_OPTIONS\<close> that is
  missing takes its default, \<open>true\<close>.
\<close>

record s3Options =
  dontNormalize_s3 :: "bool option"
  onlyEncodeOnce_s3 :: "bool option"
  setContentHash_s3 :: "bool option"
  query_s3 :: bool
  set_s3 :: bool
  getSigningData_s3 :: "(jsstring \<Rightarrow> jsstring \<Rightarrow> jsstring \<Rightarrow> jsstring \<Rightarrow> signing_data) option"

definition withS3Options :: "s3Options \<Rightarrow> signOptions" where
  \<comment> \<open>\<open>{ ...S3_OPTIONS, ...options }\<close>\<close>
  "withS3Options opts =
     \<lparr> dontNormalize = (case dontNormalize_s3 opts of Some b \<Rightarrow> b | None \<Rightarrow> True),
       onlyEncodeOnce = (case onlyEncodeOnce_s3 opts of Some b \<Rightarrow> b | None \<Rightarrow> True),
       query = query_s3 opts, set_opt = set_s3 opts,
       setContentHash = (case setContentHash_s3 opts of Some b \<Rightarrow> b | None \<Rightarrow> True),
       getSigningData_opt = getSigningData_s3 opts \<rparr>"

definition patchURL :: "heap \<Rightarrow> urlField \<Rightarrow> jsobject \<Rightarrow> nat \<Rightarrow> bool \<Rightarrow> nat \<times> heap" where
  \<comment> \<open>\<open>patchURL(request, extra, url, set)\<close>, of which only \<open>request.url\<close> is read\<close>
  "patchURL H requrl extra u set' =
     (let uH = (if set' \<or> requrl \<noteq> UrlObject u then
                  (case searchParams (urls H u) of
                     Some p \<Rightarrow> (u, H)
                   | None \<Rightarrow>
                       (case allocParams H [] of (p, H1) \<Rightarrow>
                          (u, H1 \<lparr> urls := (urls H1)(u := (urls H1 u) \<lparr> searchParams := Some p \<rparr>) \<rparr>)))
                else
                  (case allocParams H (case searchParams (urls H u) of Some q \<Rightarrow> paramObjs H q | None \<Rightarrow> []) of
                     (p, H1) \<Rightarrow>
                       allocURL H1 \<lparr> host = host (urls H u), pathname = pathname (urls H u),
                                     searchParams = Some p \<rparr>));
          u' = fst uH;
          H2 = snd uH
      in case searchParams (urls H2 u') of
           Some p \<Rightarrow> (u', H2 \<lparr> paramObjs := (paramObjs H2)
                            (p := foldl (\<lambda>acc (k, v). qSet acc k v) (paramObjs H2 p) extra) \<rparr>)
         | None \<Rightarrow> (u', H2))"

definition s3Prepare ::
  "heap \<Rightarrow> nat \<Rightarrow> s3request \<Rightarrow> s3Options \<Rightarrow> jsobject \<times> nat \<times> nat option \<times> heap" where
  \<comment> \<open>the statement \<open>if (isQuery) ... else if (options && options.set) ...\<close> of
      \<open>signS3Request\<close>: \<open>extra\<close>, \<open>url\<close>, \<open>request.headers\<close> and the store after it\<close>
  "s3Prepare H1 u0 req opts =
     (if query_s3 opts then
        (if \<not> (case searchParams (urls H1 u0) of
                  Some p \<Rightarrow> str ''X-Amz-Expires'' \<in> fst ` set (paramObjs H1 p)
                | None \<Rightarrow> False)
         then (case patchURL H1 (url req) [(str ''X-Amz-Expires'', EXPIRES_MAX)] u0 (set_s3 opts) of
                 (u, H2) \<Rightarrow> ([(str ''X-Amz-Expires'', EXPIRES_MAX)], u, headers req, H2))
         else ([], u0, headers req, H1))
      else if set_s3 opts then
        (case headers req of
           Some h \<Rightarrow> ([], u0, Some h, H1)
         | None \<Rightarrow> (case allocHeaders H1 [] of (h, H2) \<Rightarrow> ([], u0, Some h, H2)))
      else ([], u0, headers req, H1))"

definition s3Finish ::
  "runtime \<Rightarrow> heap \<Rightarrow> nat \<Rightarrow> s3request \<Rightarrow> s3Options \<Rightarrow> s3request \<times> heap" where
  \<comment> \<open>the two statements of \<open>signS3Request\<close> after the call of \<open>signRequest\<close>, on
      \<open>originalRequest\<close>\<close>
  "s3Finish E H3 u req1 opts =
     (let req2 = (case url req1 of
                    UrlString s \<Rightarrow>
                      if set_s3 opts \<and> query_s3 opts
                      then req1 \<lparr> url := UrlString (urlToString E (urlValue H3 u)) \<rparr>
                      else req1
                  | UrlObject a \<Rightarrow> req1)
      in case url req2 of
           UrlObject a \<Rightarrow>
             if \<not> truthyStr (host (urls H3 a))
             then (req2, H3 \<lparr> urls := (urls H3)(a := (urls H3 a) \<lparr> host := host (urls H3 u) \<rparr>) \<rparr>)
             else (req2, H3)
         | UrlString s \<Rightarrow> (req2, H3))"

definition signS3Request ::
  "runtime \<Rightarrow> crypto \<Rightarrow> jsstring \<Rightarrow> heap \<Rightarrow> relaxedCredentials \<Rightarrow> s3request \<Rightarrow> s3Options
     \<Rightarrow> (error + jsobject) \<times> s3request \<times> heap" where
  "signS3Request E K now H c req opts =
     (case resolveURL E H (url req) of
        Inl e \<Rightarrow> (Inl e, req, H)
      | Inr (u0, H1) \<Rightarrow>
          (case s3Prepare H1 u0 req opts of
             (extra, u, hdrs, H2) \<Rightarrow>
               (let unsigned' = (case unsigned req of Some b \<Rightarrow> b | None \<Rightarrow> query_s3 opts);
                    req1 = req \<lparr> headers := hdrs \<rparr>;
                    body' = (if unsigned' then Some (BodyHash PAYLOAD_UNSIGNED None) else body req1);
                    copy = req1 \<lparr> url := UrlObject u, body := body' \<rparr>;
                    c' = (if \<not> truthyStr (host (urls H2 u))
                          then c \<lparr> serviceName' :=
                                   (case serviceName' c of Some s \<Rightarrow> Some s | None \<Rightarrow> Some (str ''s3'')) \<rparr>
                          else c)
                in case signRequest E K now H2 c' copy (withS3Options opts) of
                     (Inl e, copy', H3) \<Rightarrow> (Inl e, req1, H3)
                   | (Inr res, copy', H3) \<Rightarrow>
                       (case s3Finish E H3 u req1 opts of
                          (req2, H4) \<Rightarrow> (Inr (objSpread extra res), req2, H4)))))"

text \<open>
  What a call may do to the objects that exist before it: nothing to a headers object or to
  a \<open>URLSearchParams\<close>, and to a url object nothing but to give the request's own url object
  a \<open>host\<close> where it had none.
\<close>

definition onlyHostPopulated :: "heap \<Rightarrow> heap \<Rightarrow> urlField \<Rightarrow> bool" where
  "onlyHostPopulated H H' u =
     (nextRef H \<le> nextRef H'
      \<and> (\<forall>a. a < nextRef H \<longrightarrow>
            headerObjs H' a = headerObjs H a \<and> paramObjs H' a = paramObjs H a
            \<and> (urls H' a = urls H a
                \<or> (u = UrlObject a \<and> \<not> truthyStr (host (urls H a))
                    \<and> urls H' a = (urls H a) \<lparr> host := host (urls H' a) \<rparr>))))"

text \<open>No object that exists before the call is changed.\<close>

definition sameObjects :: "heap \<Rightarrow> heap \<Rightarrow> bool" where
  "sameObjects H H' =
     (nextRef H \<le> nextRef H'
      \<and> (\<forall>a. a < nextRef H \<longrightarrow>
            headerObjs H' a = headerObjs H a \<and> paramObjs H' a = paramObjs H a \<and> urls H' a = urls H a))"

text \<open>A request with a url object that has no host, for credentials with a region and a service.\<close>

definition exampleHeap :: heap where
  "exampleHeap = \<lparr> urls = (\<lambda>a. \<lparr> host = None, pathname = Some (str ''/''), searchParams = None \<rparr>),
       headerObjs = (\<lambda>a. []), paramObjs = (\<lambda>a. []), nextRef = 1 \<rparr>"

definition exampleCredentials :: relaxedCredentials where
  "exampleCredentials = \<lparr> accessKey' = str ''AKID'', secretKey' = str ''secret'',
       regionName' = Some (str ''us-east-1''), serviceName' = Some (str ''s3'') \<rparr>"

definition exampleRequest :: request where
  "exampleRequest = \<lparr> url = UrlObject 0, headers = None, httpMethod = None, body = None \<rparr>"

definition exampleS3Request :: s3request where
  "exampleS3Request = \<lparr> url = UrlObject 0, headers = None, httpMethod = None, body = None, unsigned = None \<rparr>"

definition defaultS3Options :: s3Options where
  "defaultS3Options = \<lparr> dontNormalize_s3 = None, onlyEncodeOnce_s3 = None, setContentHash_s3 = None,
       query_s3 = False, set_s3 = False, getSigningData_s3 = None \<rparr>"

section \<open>s3\_chunked: signing the request of a chunked upload\<close>

definition isAwsChunked :: "jsstring \<Rightarrow> bool" where
  \<comment> \<open>\<open>/^\s*aws-chunked\s*($|,)/i.test(encoding)\<close>\<close>
  "isAwsChunked encoding =
     (let s = dropWhile isSpace encoding;
          rest = dropWhile isSpace (drop 11 s)
      in asciiLower (take 11 s) = str ''aws-chunked''
         \<and> (case rest of [] \<Rightarrow> True | c # cs \<Rightarrow> c = of_char CHR '',''))"

definition patchHeaders :: "heap \<Rightarrow> s3request \<Rightarrow> headers \<Rightarrow> bool \<Rightarrow> nat \<times> s3request \<times> heap" where
  \<comment> \<open>returns the headers object, the request object and the store\<close>
  "patchHeaders H req extra set' =
     (let hH = (if set' then
                  (case headers req of
                     Some h \<Rightarrow> (h, req, H)
                   | None \<Rightarrow> (case allocHeaders H [] of (h, H1) \<Rightarrow> (h, req \<lparr> headers := Some h \<rparr>, H1)))
                else
                  (case allocHeaders H (case headers req of Some h \<Rightarrow> headerObjs H h | None \<Rightarrow> []) of
                     (h, H1) \<Rightarrow> (h, req, H1)))
      in case hH of (h, req1, H1) \<Rightarrow>
           (h, req1, H1 \<lparr> headerObjs := (headerObjs H1)(h := objSpread (headerObjs H1 h) extra) \<rparr>))"

text \<open>The chunk signer that \<open>signS3ChunkedRequest\<close> returns: what the closure captures, and
  its variables at creation.\<close>

record chunk_signer =
  signerFraming :: framing
  signerSigning :: signing_data
  signerTimestamp :: jsstring
  signerState :: signer_state

text \<open>
  A header value that is a number: a safe integer is kept as it is; of another number the
  model keeps the string that \<open>value + ''\<close> gives, which is all that the signing code
  reads of a header value.
\<close>

definition numberValue :: "numberFormat \<Rightarrow> number \<Rightarrow> hvalue" where
  "numberValue N x =
     (case x of
        Num i \<Rightarrow> if \<bar>i\<bar> < 2 ^ 53 then HNumber i else HString (decimal N i)
      | PosInf \<Rightarrow> HString (str ''Infinity'')
      | NegInf \<Rightarrow> HString (str ''-Infinity'')
      | NaN \<Rightarrow> HString (str ''NaN''))"

definition chunkedExtra ::
  "runtime \<Rightarrow> numberFormat \<Rightarrow> jsstring \<Rightarrow> headers option \<Rightarrow> framing
     \<Rightarrow> error + (jsstring \<times> headers)" where
  \<comment> \<open>the part of \<open>signS3ChunkedRequest\<close> under \<open>Set headers\<close>: the timestamp and \<open>extra\<close>\<close>
  "chunkedExtra E N now hdrs F =
     (let enc = getHeader E hdrs (str ''content-encoding'');
          extra1 = (if \<not> (truthyStr (snd enc) \<and> isAwsChunked (case snd enc of Some s \<Rightarrow> s | None \<Rightarrow> []))
                    then [(fst enc, HString (str ''aws-chunked''
                             @ (if truthyStr (snd enc)
                                then str '','' @ (case snd enc of Some s \<Rightarrow> s | None \<Rightarrow> [])
                                else [])))]
                    else []);
          timestamp0 = snd (getHeader E hdrs (str ''x-amz-date''))
      in case (if truthyStr timestamp0
               then Inr (case timestamp0 of Some t \<Rightarrow> t | None \<Rightarrow> [], extra1)
               else (case formatTimestamp now of
                       Inl e \<Rightarrow> Inl e
                     | Inr t \<Rightarrow> Inr (t, objSet extra1 (str ''x-amz-date'') (HString t)))) of
           Inl e \<Rightarrow> Inl e
         | Inr (timestamp, extra2) \<Rightarrow>
             Inr (timestamp,
                  objSet (objSet extra2 (str ''content-length'') (numberValue N (totalLength F)))
                    (str ''x-amz-decoded-content-length'') (numberValue N (bodyLength F))))"

text \<open>Two places of \<open>signS3ChunkedRequest\<close> fail with a \<open>TypeError\<close> of the runtime: the
  result of \<open>signS3Request\<close> has no property \<open>authorization\<close> (the header was already there
  under another spelling), so that \<open>parseAuthorization\<close> is given \<open>undefined\<close>; and the
  credential has fewer than four parts, so that the key derivation is given \<open>undefined\<close> for
  the region or the service. A derivation function passed in the options is taken to fail
  there as the built-in one does.\<close>

definition signS3ChunkedRequest ::
  "runtime \<Rightarrow> numberFormat \<Rightarrow> crypto \<Rightarrow> jsstring \<Rightarrow> heap \<Rightarrow> relaxedCredentials \<Rightarrow> s3request
     \<Rightarrow> number \<Rightarrow> number \<Rightarrow> s3Options
     \<Rightarrow> (error + (headers \<times> chunk_signer)) \<times> s3request \<times> heap" where
  "signS3ChunkedRequest E N K now H c req bodyLength' chunkLength' opts =
     (case chunkFraming N bodyLength' chunkLength' of
        Inl e \<Rightarrow> (Inl e, req, H)
      | Inr F \<Rightarrow>
          (case chunkedExtra E N now (map_option (headerObjs H) (headers req)) F of
             Inl e \<Rightarrow> (Inl e, req, H)
           | Inr (timestamp, extra) \<Rightarrow>
               (case patchHeaders H req extra (set_s3 opts) of
                  (h, req1, H1) \<Rightarrow>
                    (let copy = req1 \<lparr> headers := Some h, body := Some (BodyHash PAYLOAD_STREAMING None) \<rparr>
                     in case signS3Request E K now H1 c copy (opts \<lparr> query_s3 := False \<rparr>) of
                          (Inl e, copy', H2) \<Rightarrow> (Inl e, req1, H2)
                        | (Inr res, copy', H2) \<Rightarrow>
                            (let parameters = objSpread extra (map (\<lambda>(k, v). (k, HString v)) res);
                                 req2 = req1 \<lparr> url := url copy' \<rparr>
                             in case map_of parameters (str ''authorization'') of
                                  None \<Rightarrow> (Inl TypeError, req2, H2)
                                | Some a \<Rightarrow>
                                    (case parseAuthorization (valueToString a) of
                                       Inl e \<Rightarrow> (Inl e, req2, H2)
                                     | Inr auth \<Rightarrow>
                                         (case take 2 (drop 2 (splitOn (of_char CHR ''/'') (credential auth))) of
                                            [region, service] \<Rightarrow>
                                              (let derive = (case getSigningData_s3 opts of
                                                               Some f \<Rightarrow> f | None \<Rightarrow> getSigningData K)
                                               in (Inr (parameters,
                                                     \<lparr> signerFraming = F,
                                                       signerSigning = derive timestamp (secretKey' c) region service,
                                                       signerTimestamp = timestamp,
                                                       signerState = newSigner (bufferToHex (signatureBuf auth)) \<rparr>),
                                                   req2, H2))
                                          | _ \<Rightarrow> (Inl TypeError, req2, H2))))))))"

definition callChunkSigner ::
  "crypto \<Rightarrow> chunk_signer \<Rightarrow> body option \<Rightarrow> (error + jsstring) \<times> chunk_signer" where
  \<comment> \<open>a call of the returned function\<close>
  "callChunkSigner K s chunk =
     (case chunkSigner K (signerFraming s) (signerSigning s) (signerTimestamp s) (signerState s) chunk of
        (r, st) \<Rightarrow> (r, s \<lparr> signerState := st \<rparr>))"

text \<open>What the properties below take of \<open>String.prototype.toLowerCase\<close>: it leaves these three
  header names, which are in lower case, as they are.\<close>

definition keepsLowerCase :: "runtime \<Rightarrow> bool" where
  "keepsLowerCase E =
     list_all (\<lambda>n. toLowerCase E n = n)
       [str ''content-length'', str ''x-amz-content-sha256'', str ''authorization'']"

text \<open>The objects that the signing of the example request (no header, a url with a path
  only) goes through when it is sent in chunks: the headers that \<open>signS3ChunkedRequest\<close> adds,
  with the two lengths, the store with the headers object, the copy of the request that is
  signed, and the \<open>Authorization\<close> that comes back under the stand-in MAC.\<close>

definition exampleExtra :: "hvalue \<Rightarrow> hvalue \<Rightarrow> headers" where
  "exampleExtra len decoded =
     [(str ''content-encoding'', HString (str ''aws-chunked'')),
      (str ''x-amz-date'', HString (str ''20200101T000000Z'')),
      (str ''content-length'', len),
      (str ''x-amz-decoded-content-length'', decoded)]"

definition exampleHeap1 :: "hvalue \<Rightarrow> hvalue \<Rightarrow> heap" where
  "exampleHeap1 len decoded =
     exampleHeap \<lparr> headerObjs := (headerObjs exampleHeap)(1 := exampleExtra len decoded),
                   nextRef := 2 \<rparr>"

definition exampleCopy :: s3request where
  "exampleCopy = exampleS3Request \<lparr> headers := Some 1, body := Some (BodyHash PAYLOAD_STREAMING None) \<rparr>"

definition exampleAuth :: authorization where
  "exampleAuth = \<lparr> algorithm = MAIN_ALGORITHM,
       credential = str ''AKID/20200101/us-east-1/s3/aws4_request'',
       signedHeaders = str ''content-encoding;content-length;host;x-amz-content-sha256;x-amz-date;x-amz-decoded-content-length'',
       signatureBuf = replicate 32 0 \<rparr>"

text \<open>A rendering of numbers that gives the decimal digits of the one number beyond \<open>2 ^ 53\<close>
  that the examples meet, as the runtime prints it.\<close>

definition exampleFormat :: numberFormat where
  "exampleFormat = \<lparr> radix16 = (\<lambda>n. []),
       decimal = (\<lambda>n. if n = 9105055789613142 then str ''9105055789613142'' else []) \<rparr>"

section \<open>The arithmetic of the doubles on the safe integers\<close>

text \<open>Below \<open>2 ^ 53\<close> every integer is a double, so that sums, differences and products
  that stay there are exact; so is the floor of a quotient.\<close>

lemma bitLength_0: "bitLength 0 = 0"
  by (simp add: bitLength.simps)

lemma bitLength_pos: "0 < n \<Longrightarrow> bitLength n = Suc (bitLength (n div 2))"
  by (subst bitLength.simps) simp

lemma bitLength_le: "n < 2 ^ k \<Longrightarrow> bitLength n \<le> k"
proof (induction k arbitrary: n)
  case 0
  then show ?case by (simp add: bitLength_0)
next
  case (Suc k)
  show ?case
  proof (cases "n = 0")
    case True then show ?thesis by (simp add: bitLength_0)
  next
    case False
    from Suc.prems have "n div 2 < 2 ^ k" by simp
    from Suc.IH[OF this] False show ?thesis by (simp add: bitLength_pos)
  qed
qed

lemma bitLength_lower: "0 < n \<Longrightarrow> 2 ^ (bitLength n - 1) \<le> n"
proof (induction n rule: bitLength.induct)
  case (1 n)
  show ?case
  proof (cases "n div 2 = 0")
    case True
    then have "bitLength n = 1" using 1(2) by (simp add: bitLength_pos bitLength_0)
    then show ?thesis using 1(2) by simp
  next
    case False
    then have p: "0 < n div 2" by simp
    from 1(1) 1(2) p have ih: "2 ^ (bitLength (n div 2) - 1) \<le> n div 2" by simp
    have b: "bitLength n = Suc (bitLength (n div 2))" using 1(2) by (simp add: bitLength_pos)
    have "bitLength (n div 2) \<noteq> 0" using p by (simp add: bitLength_pos)
    then have "2 ^ (bitLength n - 1) = 2 * 2 ^ (bitLength (n div 2) - 1)"
      unfolding b by (cases "bitLength (n div 2)") simp_all
    also have "\<dots> \<le> 2 * (n div 2)" using ih by simp
    also have "\<dots> \<le> n" by simp
    finally show ?thesis .
  qed
qed

lemma roundEven_1: "roundEven n (Suc 0) = n"
  by (simp add: roundEven_def)

lemma nearest_safe: "n < 2 ^ 53 \<Longrightarrow> nearest n = n"
  using bitLength_le[of n 53] by (simp add: nearest_def roundEven_1)

lemma toDouble_safe: "\<bar>i\<bar> < 2 ^ 53 \<Longrightarrow> toDouble i = Num i"
proof -
  assume a: "\<bar>i\<bar> < 2 ^ 53"
  then have "nat \<bar>i\<bar> < 2 ^ 53" by (simp add: nat_less_iff)
  then have n: "nearest (nat \<bar>i\<bar>) = nat \<bar>i\<bar>" by (rule nearest_safe)
  have "\<bar>i\<bar> < (2::int) ^ 1024" using a by (rule less_trans) simp
  then show ?thesis by (auto simp: toDouble_def n Let_def)
qed

lemma roundEven_bounds:
  "a div b \<le> roundEven a b" "roundEven a b \<le> a div b + 1"
  "2 * (a mod b) < b \<Longrightarrow> roundEven a b = a div b"
  by (auto simp: roundEven_def Let_def)

lemma floorQuotient_safe:
  assumes a: "a < 2 ^ 53" and b: "0 < b" "b < 2 ^ 53"
  shows "floorQuotient a b = a div b"
proof -
  define q where "q = a div b"
  define L where "L = bitLength q"
  define s :: nat where "s = 2 ^ (53 - L)"
  define x where "x = a * s"
  have qa: "q \<le> a" unfolding q_def by (rule div_le_dividend)
  then have L: "L \<le> 53" unfolding L_def using a by (intro bitLength_le) simp
  have s0: "0 < s" by (simp add: s_def)
  have qb: "q * b \<le> a" unfolding q_def by simp
  have ab: "a < (q + 1) * b" unfolding q_def using b(1) by (simp add: dividend_less_times_div mult.commute)
  have b2s: "b < 2 * s"
  proof (cases "q = 0")
    case True
    then have "L = 0" by (simp add: L_def bitLength_0)
    then show ?thesis using b(2) by (simp add: s_def)
  next
    case False
    then have "2 ^ (L - 1) \<le> q" unfolding L_def by (intro bitLength_lower) simp
    then have "2 ^ (L - 1) * b \<le> q * b" by (rule mult_le_mono1)
    also note qb
    also note a
    finally have lt: "2 ^ (L - 1) * b < 2 ^ 53" .
    have L1: "1 \<le> L" using False by (simp add: L_def bitLength_pos)
    have "(2::nat) ^ 53 = 2 ^ (L - 1) * 2 ^ (54 - L)"
      using L L1 by (simp add: power_add[symmetric])
    with lt have "2 ^ (L - 1) * b < 2 ^ (L - 1) * 2 ^ (54 - L)" by simp
    then have "b < 2 ^ (54 - L)" by simp
    also have "(2::nat) ^ (54 - L) = 2 * s" using L by (simp add: s_def Suc_diff_le flip: power_Suc)
    finally show ?thesis .
  qed
  have lo: "q * s \<le> x div b"
  proof -
    have "q * s * b \<le> x" using qb by (simp add: x_def mult.commute mult.left_commute)
    then have "(q * s * b) div b \<le> x div b" by (rule div_le_mono)
    then show ?thesis using b(1) by simp
  qed
  have xs: "x + s \<le> (q + 1) * s * b"
  proof -
    from ab have "a + 1 \<le> (q + 1) * b" by simp
    then have "(a + 1) * s \<le> (q + 1) * b * s" by (rule mult_le_mono1)
    then show ?thesis by (simp add: x_def algebra_simps)
  qed
  have hi: "roundEven x b < (q + 1) * s"
  proof (cases "x div b + 1 < (q + 1) * s")
    case True
    then show ?thesis using roundEven_bounds(2)[of x b] by simp
  next
    case False
    have "x < (q + 1) * s * b" using xs s0 by simp
    then have "x div b < (q + 1) * s" using b(1) by (simp add: less_mult_imp_div_less)
    with False have e: "x div b + 1 = (q + 1) * s" by simp
    have "x = b * (x div b) + x mod b" by simp
    then have "x + b = b * (x div b + 1) + x mod b" by simp
    then have "x + b = (q + 1) * s * b + x mod b" unfolding e by (simp add: mult.commute)
    with xs have "x mod b + s \<le> b" by simp
    with b2s have "2 * (x mod b) < b" by simp
    then have "roundEven x b = x div b" by (rule roundEven_bounds(3))
    then show ?thesis using e by simp
  qed
  have "roundEven x b div s = q"
  proof -
    have "q * s \<le> roundEven x b" using lo roundEven_bounds(1)[of x b] by simp
    then have "q \<le> roundEven x b div s" using s0 by (simp add: less_eq_div_iff_mult_less_eq)
    moreover have "roundEven x b div s < q + 1" using hi s0 by (simp add: less_mult_imp_div_less)
    ultimately show ?thesis by simp
  qed
  then show ?thesis using L by (simp add: floorQuotient_def q_def[symmetric] L_def[symmetric] s_def x_def Let_def)
qed

declare toString16.simps [simp del] numAdd.simps [simp del] numMul.simps [simp del]
  floorDiv.simps [simp del] numNeg.simps [simp del]

lemma numAdd_safe: "\<bar>a + b\<bar> < 2 ^ 53 \<Longrightarrow> numAdd (Num a) (Num b) = Num (a + b)"
  by (simp add: toDouble_safe numAdd.simps)

lemma numSub_safe: "\<bar>a - b\<bar> < 2 ^ 53 \<Longrightarrow> numSub (Num a) (Num b) = Num (a - b)"
  by (simp add: numSub_def toDouble_safe numAdd.simps numNeg.simps)

lemma numMul_safe: "\<bar>a * b\<bar> < 2 ^ 53 \<Longrightarrow> numMul (Num a) (Num b) = Num (a * b)"
  by (simp add: toDouble_safe numMul.simps)

lemma floorDiv_safe:
  assumes "0 \<le> a" "a < 2 ^ 53" "0 < b" "b < 2 ^ 53"
  shows "floorDiv (Num a) (Num b) = Num (a div b)"
proof -
  have "nat a < 2 ^ 53" "0 < nat b" "nat b < 2 ^ 53" using assms by (simp_all add: nat_less_iff)
  then have "floorQuotient (nat a) (nat b) = nat a div nat b" by (rule floorQuotient_safe)
  then show ?thesis using assms by (simp add: zdiv_int floorDiv.simps)
qed

lemma numEq_Num [simp]: "numEq (Num a) (Num b) = (a = b)"
  by (simp add: numEq_def)

lemma numTruthy_Num [simp]: "numTruthy (Num a) = (a \<noteq> 0)"
  by (simp add: numTruthy_def)

lemma lengthIs_Num: "lengthIs c (Num n) = (chunkLen c = Some (Num n))"
  by (auto simp: lengthIs_def numEq_def split: option.splits)

section \<open>Properties of the chunk signature chain\<close>

lemma calculateChunks_safe:
  assumes "B < 2 ^ 53" "C < 2 ^ 53"
  shows "calculateChunks (Num B) (Num C) =
     (if C < 8192 then Inl InvalidChunkLength
      else if B < 0 then Inl InvalidBodyLength
      else Inr (Num (B div C), Num (B mod C)))"
proof (cases "8192 \<le> C \<and> 0 \<le> B")
  case False
  then show ?thesis by (auto simp: calculateChunks_def CHUNK_MIN_def)
next
  case True
  then have C0: "0 < C" and B0: "0 \<le> B" by simp_all
  have q: "floorDiv (Num B) (Num C) = Num (B div C)"
    using floorDiv_safe[OF B0 assms(1) C0 assms(2)] .
  have "0 \<le> B mod C" using C0 by simp
  then have "B div C * C \<le> B" by (simp add: minus_div_mult_eq_mod[symmetric])
  moreover have "0 \<le> B div C * C" using B0 C0 by (simp add: pos_imp_zdiv_nonneg_iff)
  ultimately have le: "0 \<le> B div C * C" "B div C * C \<le> B" by simp_all
  then have m: "numMul (Num (B div C)) (Num C) = Num (B div C * C)"
    using assms(1) by (intro numMul_safe) simp
  have s: "numSub (Num B) (Num (B div C * C)) = Num (B - B div C * C)"
    using le B0 assms(1) by (intro numSub_safe) simp
  show ?thesis using True
    by (simp add: calculateChunks_def CHUNK_MIN_def q m s Let_def minus_div_mult_eq_mod)
qed

lemma chunkFraming_Inr:
  assumes "chunkFraming N (Num B) (Num C) = Inr F" and "B < 2 ^ 53" and "C < 2 ^ 53"
  shows "bodyLength F = Num B" "chunkLength F = Num C" "8192 \<le> C" "0 \<le> B"
    "chunks F = Num (B div C)" "lastLength F = Num (B mod C)"
    "chunkHeader F = toString16 N (Num C) @ str '';chunk-signature=''"
    "lastHeader F = toString16 N (Num (B mod C)) @ str '';chunk-signature=''"
    "finalHeader F = str ''0;chunk-signature=''"
  using assms(1)
  by (auto simp: chunkFraming_def calculateChunks_safe[OF assms(2,3)] Let_def split: if_splits)

lemma chunkFraming_valid:
  assumes "8192 \<le> C" "0 \<le> B" "B < 2 ^ 53" "C < 2 ^ 53"
  shows "\<exists>F. chunkFraming N (Num B) (Num C) = Inr F"
  using assms by (simp add: chunkFraming_def calculateChunks_safe Let_def)

lemma signerInvD:
  assumes "signerInv B C st"
  obtains d where "dataCount st = Num d" "0 \<le> d" "d \<le> B" "d = B \<or> d mod C = 0" "isDone st \<longrightarrow> d = B"
  using assms by (auto simp: signerInv_def split: number.splits)

lemma signerInvI:
  "dataCount st = Num d \<Longrightarrow> 0 \<le> d \<Longrightarrow> d \<le> B \<Longrightarrow> d = B \<or> d mod C = 0 \<Longrightarrow> (isDone st \<longrightarrow> d = B)
   \<Longrightarrow> signerInv B C st"
  by (simp add: signerInv_def)

lemma signerInv_new: "0 \<le> B \<Longrightarrow> signerInv B C (newSigner seed)"
  by (simp add: signerInv_def newSigner_def)

lemma expected_fst:
  assumes F: "chunkFraming N (Num B) (Num C) = Inr F" and sB: "B < 2 ^ 53" and sC: "C < 2 ^ 53"
    and d: "dataCount st = Num d" "0 \<le> d" "d \<le> B"
  shows "expected F st =
     (if C \<le> B - d then (Num C, chunkHeader F)
      else if d \<noteq> B then (lastLength F, lastHeader F) else (Num 0, finalHeader F))"
    and "fst (expected F st) = Num (expectedLength B C d)"
proof -
  note f = chunkFraming_Inr[OF F sB sC]
  have s: "numSub (Num B) (Num d) = Num (B - d)" using d sB by (intro numSub_safe) simp
  show e: "expected F st =
     (if C \<le> B - d then (Num C, chunkHeader F)
      else if d \<noteq> B then (lastLength F, lastHeader F) else (Num 0, finalHeader F))"
    by (simp add: expected_def f(1,2) d(1) s)
  show "fst (expected F st) = Num (expectedLength B C d)"
    unfolding e by (simp add: expectedLength_def f(6) minus_div_mult_eq_mod)
qed

lemma expectedLength_props:
  assumes C: "8192 \<le> C" and d: "0 \<le> d" "d \<le> B" "d = B \<or> d mod C = 0"
  shows "0 \<le> expectedLength B C d" "d + expectedLength B C d \<le> B"
    "d + expectedLength B C d = B \<or> (d + expectedLength B C d) mod C = 0"
    "expectedLength B C d = 0 \<longleftrightarrow> d = B"
    "B - d < C \<Longrightarrow> d \<noteq> B \<Longrightarrow> expectedLength B C d = B - d"
proof -
  have sh: "B mod C = B - d" if lt: "B - d < C" and ne: "d \<noteq> B"
  proof -
    from d(3) ne have m: "d mod C = 0" by simp
    have "B mod C = (B - d) mod C" using m by (metis diff_zero mod_diff_right_eq)
    also have "\<dots> = B - d" using lt d(2) by simp
    finally show ?thesis .
  qed
  consider (full) "C \<le> B - d" | (short) "B - d < C" "d \<noteq> B" | (final) "d = B" by linarith
  then have "0 \<le> expectedLength B C d \<and> d + expectedLength B C d \<le> B
    \<and> (d + expectedLength B C d = B \<or> (d + expectedLength B C d) mod C = 0)
    \<and> (expectedLength B C d = 0 \<longleftrightarrow> d = B)
    \<and> (B - d < C \<longrightarrow> d \<noteq> B \<longrightarrow> expectedLength B C d = B - d)"
  proof cases
    case full
    then show ?thesis using C d by (auto simp: expectedLength_def)
  next
    case short
    then show ?thesis using C d sh by (auto simp: expectedLength_def minus_div_mult_eq_mod)
  next
    case final
    then show ?thesis using C d by (auto simp: expectedLength_def)
  qed
  then show "0 \<le> expectedLength B C d" "d + expectedLength B C d \<le> B"
    "d + expectedLength B C d = B \<or> (d + expectedLength B C d) mod C = 0"
    "expectedLength B C d = 0 \<longleftrightarrow> d = B"
    "B - d < C \<Longrightarrow> d \<noteq> B \<Longrightarrow> expectedLength B C d = B - d" by blast+
qed

lemma chunkSigner_done: "isDone st \<Longrightarrow> chunkSigner K F sg ts st c = (Inl PayloadComplete, st)"
  by (simp add: chunkSigner_def)

lemma chunkSigner_mismatch:
  "\<not> isDone st \<Longrightarrow> \<not> lengthIs c (fst (expected F st)) \<Longrightarrow>
   chunkSigner K F sg ts st c =
     (Inl (UnexpectedChunkSize (chunkAndLength c) (fst (expected F st))), st)"
  by (cases "expected F st") (simp add: chunkSigner_def)

lemma chunkSigner_error_atomic:
  "fst (chunkSigner K F sg ts st c) = Inl e \<Longrightarrow> snd (chunkSigner K F sg ts st c) = st"
  by (auto simp: chunkSigner_def Let_def split: prod.splits if_splits)

lemma chunkSigner_InrD:
  assumes "chunkSigner K F sg ts st c = (Inr out, st')"
  shows "\<not> isDone st" "lengthIs c (fst (expected F st))"
  using assms by (auto simp: chunkSigner_def Let_def split: prod.splits if_splits)

lemma chunkSigner_accept:
  assumes F: "chunkFraming N (Num B) (Num C) = Inr F" and sB: "B < 2 ^ 53" and sC: "C < 2 ^ 53"
    and inv: "signerInv B C st" and d: "dataCount st = Num d"
    and nd: "\<not> isDone st" and l: "chunkLen c = Some (Num (expectedLength B C d))"
  shows "chunkSigner K F sg ts st c =
     (Inr ((if d = 0 then [] else CRLF) @ snd (expected F st)
            @ signS3Chunk K (signature st) sg ts c @ CRLF
            @ (if expectedLength B C d \<noteq> 0 then [] else CRLF)),
      st \<lparr> signature := signS3Chunk K (signature st) sg ts c,
           dataCount := Num (d + expectedLength B C d),
           isDone := (expectedLength B C d = 0) \<rparr>)"
proof -
  note f = chunkFraming_Inr[OF F sB sC]
  from inv d have i: "0 \<le> d" "d \<le> B" "d = B \<or> d mod C = 0"
    by (auto elim!: signerInvD)
  note p = expectedLength_props[OF f(3) i]
  have e: "fst (expected F st) = Num (expectedLength B C d)"
    by (rule expected_fst(2)[OF F sB sC d i(1,2)])
  have a: "numAdd (Num d) (Num (expectedLength B C d)) = Num (d + expectedLength B C d)"
    using p(1,2) i(1) sB by (intro numAdd_safe) simp
  obtain len hdr where x: "expected F st = (len, hdr)" by (cases "expected F st")
  with e have len: "len = Num (expectedLength B C d)" by simp
  show ?thesis
    using nd l by (simp add: chunkSigner_def x len lengthIs_Num d a Let_def)
qed

lemma signerInv_step:
  assumes F: "chunkFraming N (Num B) (Num C) = Inr F" and sB: "B < 2 ^ 53" and sC: "C < 2 ^ 53"
    and inv: "signerInv B C st"
  shows "signerInv B C (snd (chunkSigner K F sg ts st c))"
proof (cases "fst (chunkSigner K F sg ts st c)")
  case (Inl e)
  then show ?thesis using chunkSigner_error_atomic inv by metis
next
  case (Inr out)
  then have e: "chunkSigner K F sg ts st c = (Inr out, snd (chunkSigner K F sg ts st c))"
    by (metis prod.collapse)
  note f = chunkFraming_Inr[OF F sB sC]
  from inv obtain d where d: "dataCount st = Num d" and i: "0 \<le> d" "d \<le> B" "d = B \<or> d mod C = 0"
    by (auto elim!: signerInvD)
  note p = expectedLength_props[OF f(3) i]
  from chunkSigner_InrD[OF e] have nd: "\<not> isDone st"
    and l: "chunkLen c = Some (Num (expectedLength B C d))"
    by (simp_all add: expected_fst(2)[OF F sB sC d i(1,2)] lengthIs_Num)
  show ?thesis
    unfolding chunkSigner_accept[OF F sB sC inv d nd l]
    using p i by (intro signerInvI[of _ "d + expectedLength B C d"]) auto
qed

lemma remaining_step:
  assumes F: "chunkFraming N (Num B) (Num C) = Inr F" and sB: "B < 2 ^ 53" and sC: "C < 2 ^ 53"
    and inv: "signerInv B C st" and d: "dataCount st = Num d" and nd: "\<not> isDone st"
  shows "remaining B C F st = (Num (expectedLength B C d), snd (expected F st))
           # remaining B C F (st \<lparr> signature := s, dataCount := Num (d + expectedLength B C d),
                                isDone := (expectedLength B C d = 0) \<rparr>)"
proof -
  note f = chunkFraming_Inr[OF F sB sC]
  from inv d have i: "0 \<le> d" "d \<le> B" "d = B \<or> d mod C = 0"
    by (auto elim!: signerInvD)
  note x = expected_fst(1)[OF F sB sC d i(1,2)]
  note p = expectedLength_props[OF f(3) i]
  consider (full) "C \<le> B - d" | (short) "B - d < C" "d \<noteq> B" | (final) "d = B" by linarith
  then show ?thesis
  proof cases
    case full
    define r where "r = B - (d + C)"
    have r: "0 \<le> r" "B - d = r + C" using full by (simp_all add: r_def)
    have C0: "C \<noteq> 0" using f(3) by simp
    have dv: "(r + C) div C = r div C + 1" using C0 by (rule div_add_self2)
    have m: "(r + C) mod C = r mod C" by simp
    have n: "nat (r div C + 1) = Suc (nat (r div C))"
      using r(1) f(3) by (simp add: nat_add_distrib pos_imp_zdiv_nonneg_iff)
    have e: "expectedLength B C d = C" using full by (simp add: expectedLength_def)
    have L: "remaining B C F st = (Num C, chunkHeader F) # replicate (nat (r div C)) (Num C, chunkHeader F)
        @ (if r mod C \<noteq> 0 then [(lastLength F, lastHeader F)] else []) @ [(Num 0, finalHeader F)]"
      using nd by (simp add: remaining_def d r dv m n)
    have R: "remaining B C F (st \<lparr> signature := s, dataCount := Num (d + expectedLength B C d),
                                isDone := (expectedLength B C d = 0) \<rparr>)
        = replicate (nat (r div C)) (Num C, chunkHeader F)
        @ (if r mod C \<noteq> 0 then [(lastLength F, lastHeader F)] else []) @ [(Num 0, finalHeader F)]"
      using C0 by (simp add: remaining_def e r_def)
    show ?thesis unfolding L R using full by (simp add: e x)
  next
    case short
    have e: "expectedLength B C d = B - d" using p(5) short by simp
    have l: "lastLength F = Num (B - d)"
      using e short f(6) by (simp add: expectedLength_def minus_div_mult_eq_mod)
    show ?thesis using nd short i f(3)
      by (simp add: remaining_def d e x l)
  next
    case final
    then show ?thesis using nd f(3) by (simp add: remaining_def d x expectedLength_def)
  qed
qed

lemma length_conformingLengths: "length (conformingLengths B C) = conformingCalls B C"
  by (simp add: conformingLengths_def conformingCalls_def)

lemma remaining_new:
  assumes F: "chunkFraming N (Num B) (Num C) = Inr F" and sB: "B < 2 ^ 53" and sC: "C < 2 ^ 53"
  shows "map fst (remaining B C F (newSigner seed)) = map Num (conformingLengths B C)"
proof -
  note f = chunkFraming_Inr[OF F sB sC]
  have "0 \<le> B mod C" using f(3) by simp
  then have "(B mod C \<noteq> 0) = (0 < B mod C)" by linarith
  then show ?thesis
    by (simp add: remaining_def newSigner_def conformingLengths_def f(6) minus_div_mult_eq_mod)
qed

lemma remaining_new_Some:
  assumes F: "chunkFraming N (Num B) (Num C) = Inr F" and sB: "B < 2 ^ 53" and sC: "C < 2 ^ 53"
  shows "map (Some \<circ> fst) (remaining B C F (newSigner seed)) = map (Some \<circ> Num) (conformingLengths B C)"
proof -
  have "map (Some \<circ> fst) (remaining B C F (newSigner seed))
      = map Some (map fst (remaining B C F (newSigner seed)))" by simp
  then show ?thesis by (simp only: remaining_new[OF F sB sC]) simp
qed

lemma remaining_Nil: "signerInv B C st \<Longrightarrow> remaining B C F st = [] \<longleftrightarrow> isDone st"
  by (auto simp: remaining_def elim!: signerInvD split: if_splits)

lemma runSigner_remaining:
  assumes F: "chunkFraming N (Num B) (Num C) = Inr F" and sB: "B < 2 ^ 53" and sC: "C < 2 ^ 53"
  shows "signerInv B C st \<Longrightarrow> runSigner K F sg ts st cs = Inr (outs, st') \<Longrightarrow>
         signerInv B C st' \<and> length outs = length cs
         \<and> map chunkLen cs @ map (Some \<circ> fst) (remaining B C F st') = map (Some \<circ> fst) (remaining B C F st)"
proof (induction cs arbitrary: st outs)
  case Nil
  then show ?case by simp
next
  case (Cons c cs)
  from Cons.prems(2) obtain out st1 outs1 where
    c: "chunkSigner K F sg ts st c = (Inr out, st1)"
    and r: "runSigner K F sg ts st1 cs = Inr (outs1, st')" and o: "outs = out # outs1"
    by (auto split: prod.splits sum.splits)
  from Cons.prems(1) obtain d where d: "dataCount st = Num d" and i: "0 \<le> d" "d \<le> B"
    by (auto elim!: signerInvD)
  from chunkSigner_InrD[OF c] have nd: "\<not> isDone st"
    and l: "chunkLen c = Some (Num (expectedLength B C d))"
    by (simp_all add: expected_fst(2)[OF F sB sC d i] lengthIs_Num)
  have st1: "st1 = st \<lparr> signature := signS3Chunk K (signature st) sg ts c,
           dataCount := Num (d + expectedLength B C d),
           isDone := (expectedLength B C d = 0) \<rparr>"
    using chunkSigner_accept[OF F sB sC Cons.prems(1) d nd l, of K sg ts] c by simp
  have i1: "signerInv B C st1" using signerInv_step[OF F sB sC Cons.prems(1), of K sg ts c] c by simp
  have "remaining B C F st = (Num (expectedLength B C d), snd (expected F st)) # remaining B C F st1"
    unfolding st1 by (rule remaining_step[OF F sB sC Cons.prems(1) d nd])
  with Cons.IH[OF i1 r] l o show ?case by simp
qed

lemma runSigner_conforming:
  assumes F: "chunkFraming N (Num B) (Num C) = Inr F" and sB: "B < 2 ^ 53" and sC: "C < 2 ^ 53"
  shows "signerInv B C st \<Longrightarrow> map chunkLen cs = take (length cs) (map (Some \<circ> fst) (remaining B C F st)) \<Longrightarrow>
         length cs \<le> length (remaining B C F st) \<Longrightarrow>
         \<exists>outs st'. runSigner K F sg ts st cs = Inr (outs, st')"
proof (induction cs arbitrary: st)
  case Nil
  then show ?case by simp
next
  case (Cons c cs)
  from Cons.prems(3) have ne: "remaining B C F st \<noteq> []" by auto
  then have nd: "\<not> isDone st" using remaining_Nil[OF Cons.prems(1), of F] by simp
  from Cons.prems(1) obtain d where d: "dataCount st = Num d" by (auto elim!: signerInvD)
  define st1 where "st1 = st \<lparr> signature := signS3Chunk K (signature st) sg ts c,
           dataCount := Num (d + expectedLength B C d),
           isDone := (expectedLength B C d = 0) \<rparr>"
  have rs: "remaining B C F st = (Num (expectedLength B C d), snd (expected F st)) # remaining B C F st1"
    unfolding st1_def by (rule remaining_step[OF F sB sC Cons.prems(1) d nd])
  with Cons.prems(2,3) have l: "chunkLen c = Some (Num (expectedLength B C d))"
    and m: "map chunkLen cs = take (length cs) (map (Some \<circ> fst) (remaining B C F st1))"
    and n: "length cs \<le> length (remaining B C F st1)" by (simp_all add: comp_def)
  have c: "chunkSigner K F sg ts st c =
     (Inr ((if d = 0 then [] else CRLF) @ snd (expected F st)
            @ signS3Chunk K (signature st) sg ts c @ CRLF
            @ (if expectedLength B C d \<noteq> 0 then [] else CRLF)), st1)"
    unfolding st1_def by (rule chunkSigner_accept[OF F sB sC Cons.prems(1) d nd l])
  have i1: "signerInv B C st1" using signerInv_step[OF F sB sC Cons.prems(1), of K sg ts c] c by simp
  from Cons.IH[OF i1 m n] obtain outs st' where
    "runSigner K F sg ts st1 cs = Inr (outs, st')" by blast
  then show ?case using c by simp
qed

lemma runSigner_new:
  assumes F: "chunkFraming N (Num B) (Num C) = Inr F" and sB: "B < 2 ^ 53" and sC: "C < 2 ^ 53"
    and r: "runSigner K F sg ts (newSigner seed) cs = Inr (outs, st)"
  shows "map chunkLen cs = map (Some \<circ> Num) (take (length cs) (conformingLengths B C))"
    "length cs \<le> conformingCalls B C" "isDone st \<longleftrightarrow> length cs = conformingCalls B C"
    "length outs = length cs" "signerInv B C st"
proof -
  note f = chunkFraming_Inr[OF F sB sC]
  from runSigner_remaining[OF F sB sC signerInv_new[OF f(4)] r]
  have e: "map chunkLen cs @ map (Some \<circ> fst) (remaining B C F st) = map (Some \<circ> Num) (conformingLengths B C)"
    and l: "length outs = length cs" and i: "signerInv B C st"
    by (simp_all add: remaining_new_Some[OF F sB sC])
  from e have "length cs + length (remaining B C F st) = conformingCalls B C"
    by (metis length_append length_map length_conformingLengths)
  moreover have "length (remaining B C F st) = 0 \<longleftrightarrow> isDone st"
    using remaining_Nil[OF i, of F] by simp
  ultimately show "length cs \<le> conformingCalls B C" "isDone st \<longleftrightarrow> length cs = conformingCalls B C"
    by auto
  from e have "take (length cs) (map chunkLen cs @ map (Some \<circ> fst) (remaining B C F st))
     = take (length cs) (map (Some \<circ> Num) (conformingLengths B C))" by simp
  then show "map chunkLen cs = map (Some \<circ> Num) (take (length cs) (conformingLengths B C))"
    by (simp add: take_map)
  show "length outs = length cs" by (rule l)
  show "signerInv B C st" by (rule i)
qed

lemma runSigner_new_conforming:
  assumes F: "chunkFraming N (Num B) (Num C) = Inr F" and sB: "B < 2 ^ 53" and sC: "C < 2 ^ 53"
    and c: "map chunkLen cs = map (Some \<circ> Num) (take n (conformingLengths B C))"
  shows "\<exists>outs st. runSigner K F sg ts (newSigner seed) cs = Inr (outs, st)
     \<and> length outs = length cs \<and> (isDone st \<longleftrightarrow> conformingCalls B C \<le> n)"
proof -
  note f = chunkFraming_Inr[OF F sB sC]
  have len: "length cs = min n (conformingCalls B C)"
    using arg_cong[OF c, of length] by (simp add: length_conformingLengths min.commute)
  have a: "map chunkLen cs = take (length cs) (map (Some \<circ> fst) (remaining B C F (newSigner seed)))"
  proof -
    have "take (min n (conformingCalls B C)) (conformingLengths B C) = take n (conformingLengths B C)"
      unfolding length_conformingLengths[symmetric] by (simp add: min_def)
    then show ?thesis
      unfolding remaining_new_Some[OF F sB sC] c len by (simp add: take_map)
  qed
  have b: "length cs \<le> length (remaining B C F (newSigner seed))"
    using arg_cong[OF remaining_new_Some[OF F sB sC, of seed], of length] len
    by (simp add: length_conformingLengths)
  from runSigner_conforming[OF F sB sC signerInv_new[OF f(4)] a b]
  obtain outs st where r: "runSigner K F sg ts (newSigner seed) cs = Inr (outs, st)" by blast
  from runSigner_new(3,4)[OF F sB sC r] len r show ?thesis by auto
qed

lemma callSigner_inv:
  assumes F: "chunkFraming N (Num B) (Num C) = Inr F" and sB: "B < 2 ^ 53" and sC: "C < 2 ^ 53"
  shows "signerInv B C st \<Longrightarrow> dataCount st = Num d \<Longrightarrow> callSigner K F sg ts st cs = (rs, st') \<Longrightarrow>
     signerInv B C st' \<and> dataCount st' = Num (d + acceptedBytes cs rs)"
proof (induction cs arbitrary: st rs d)
  case Nil
  then show ?case by simp
next
  case (Cons c cs)
  obtain r st1 where c: "chunkSigner K F sg ts st c = (r, st1)" by (cases "chunkSigner K F sg ts st c")
  obtain rs1 where r: "callSigner K F sg ts st1 cs = (rs1, st')" and rs: "rs = r # rs1"
    using Cons.prems(3) c by (auto split: prod.splits)
  have i1: "signerInv B C st1" using signerInv_step[OF F sB sC Cons.prems(1), of K sg ts c] c by simp
  show ?case
  proof (cases r)
    case (Inl e)
    then have "st1 = st" using chunkSigner_error_atomic[of K F sg ts st c e] c by simp
    then show ?thesis using Cons.IH[OF i1 _ r, of d] Cons.prems(2) rs Inl by simp
  next
    case (Inr out)
    from Cons.prems(1,2) have i: "0 \<le> d" "d \<le> B" by (auto elim!: signerInvD)
    from chunkSigner_InrD[OF c[unfolded Inr]] have nd: "\<not> isDone st"
      and l: "chunkLen c = Some (Num (expectedLength B C d))"
      by (simp_all add: expected_fst(2)[OF F sB sC Cons.prems(2) i] lengthIs_Num)
    have d1: "dataCount st1 = Num (d + expectedLength B C d)"
      using chunkSigner_accept[OF F sB sC Cons.prems(1,2) nd l, of K sg ts] c by auto
    have "bytesOf c = expectedLength B C d" using l by (simp add: bytesOf_def)
    then show ?thesis using Cons.IH[OF i1 d1 r] rs Inr by (simp add: add.assoc)
  qed
qed

lemma bitLength_numeral:
  "bitLength (numeral k) = Suc (bitLength (numeral k div 2))"
  by (rule bitLength_pos) simp

lemma bitLength_Suc0: "bitLength (Suc 0) = Suc 0"
  by (simp add: bitLength_pos bitLength_0)

lemmas double_eval = toDouble_def nearest_def roundEven_def floorQuotient_def Let_def
  bitLength_numeral bitLength_Suc0 bitLength_0

text \<open>The body of 13510798882111492 bytes and the chunk of \<open>2 ^ 52 + 1\<close> bytes: three chunks
  are 13510798882111491 bytes, which is no double and is rounded to the body length.\<close>

lemma large_calculateChunks:
  "calculateChunks (Num 13510798882111492) (Num 4503599627370497) = Inr (Num 3, Num 0)"
  by (simp add: calculateChunks_def CHUNK_MIN_def floorDiv.simps numMul.simps numSub_def
      numAdd.simps numNeg.simps double_eval)

lemma large_framing:
  assumes "chunkFraming N (Num 13510798882111492) (Num 4503599627370497) = Inr F"
  shows "bodyLength F = Num 13510798882111492" "chunkLength F = Num 4503599627370497"
    "chunks F = Num 3" "lastLength F = Num 0"
  using assms by (auto simp: chunkFraming_def large_calculateChunks Let_def)

lemma large_framing_ex: "\<exists>F. chunkFraming N (Num 13510798882111492) (Num 4503599627370497) = Inr F"
  by (simp add: chunkFraming_def large_calculateChunks Let_def)

lemma large_expected:
  assumes "chunkFraming N (Num 13510798882111492) (Num 4503599627370497) = Inr F"
  shows "fst (expected F (st \<lparr> dataCount := Num 0 \<rparr>)) = Num 4503599627370497"
    "fst (expected F (st \<lparr> dataCount := Num 4503599627370497 \<rparr>)) = Num 4503599627370497"
    "fst (expected F (st \<lparr> dataCount := Num 9007199254740994 \<rparr>)) = Num 4503599627370497"
    "fst (expected F (st \<lparr> dataCount := Num 13510798882111492 \<rparr>)) = Num 0"
  by (simp_all add: expected_def large_framing[OF assms] numSub_def numAdd.simps numNeg.simps double_eval)

lemma large_sums:
  "numAdd (Num 0) (Num 4503599627370497) = Num 4503599627370497"
  "numAdd (Num 4503599627370497) (Num 4503599627370497) = Num 9007199254740994"
  "numAdd (Num 9007199254740994) (Num 4503599627370497) = Num 13510798882111492"
  "numAdd (Num 13510798882111492) (Num 0) = Num 13510798882111492"
  by (simp_all add: numAdd.simps double_eval)

lemma chunkSigner_step:
  assumes "\<not> isDone st" "fst (expected F st) = len" "lengthIs c len"
  shows "\<exists>out. chunkSigner K F sg ts st c =
     (Inr out, st \<lparr> signature := signS3Chunk K (signature st) sg ts c,
                    dataCount := numAdd (dataCount st) len, isDone := \<not> numTruthy len \<rparr>)"
  using assms by (cases "expected F st") (simp add: chunkSigner_def Let_def)

lemma large_steps:
  assumes F: "chunkFraming N (Num 13510798882111492) (Num 4503599627370497) = Inr F"
  obtains o1 o2 o3 o4 s1 s2 s3 s4 where
    "chunkSigner K F sg ts (newSigner seed) (Some (BodyHash h (Some 4503599627370497))) = (Inr o1, s1)"
    "chunkSigner K F sg ts s1 (Some (BodyHash h (Some 4503599627370497))) = (Inr o2, s2)"
    "chunkSigner K F sg ts s2 (Some (BodyHash h (Some 4503599627370497))) = (Inr o3, s3)"
    "dataCount s3 = Num 13510798882111492" "\<not> isDone s3"
    "chunkSigner K F sg ts s3 (Some (BodyBuffer [0]))
       = (Inl (UnexpectedChunkSize (ReportedLength (Num 1)) (Num 0)), s3)"
    "chunkSigner K F sg ts s3 None = (Inr o4, s4)" "isDone s4" "dataCount s4 = Num 13510798882111492"
proof -
  note e = large_expected[OF F]
  define c where "c = Some (BodyHash h (Some 4503599627370497))"
  have l: "lengthIs c (Num 4503599627370497)" by (simp add: c_def lengthIs_Num)
  define s1 where "s1 = \<lparr> signature = signS3Chunk K seed sg ts c,
      dataCount = Num 4503599627370497, isDone = False \<rparr>"
  define s2 where "s2 = \<lparr> signature = signS3Chunk K (signature s1) sg ts c,
        dataCount = Num 9007199254740994, isDone = False \<rparr>"
  define s3 where "s3 = \<lparr> signature = signS3Chunk K (signature s2) sg ts c,
        dataCount = Num 13510798882111492, isDone = False \<rparr>"
  define s4 where "s4 = \<lparr> signature = signS3Chunk K (signature s3) sg ts None,
        dataCount = Num 13510798882111492, isDone = True \<rparr>"
  have e0: "fst (expected F (newSigner seed)) = Num 4503599627370497"
    using e(1)[of "newSigner seed"] by (simp add: newSigner_def)
  have e1: "fst (expected F s1) = Num 4503599627370497" using e(2)[of s1] by (simp add: s1_def)
  have e2: "fst (expected F s2) = Num 4503599627370497" using e(3)[of s2] by (simp add: s2_def)
  have e3: "fst (expected F s3) = Num 0" using e(4)[of s3] by (simp add: s3_def)
  obtain o1 where 1: "chunkSigner K F sg ts (newSigner seed) c = (Inr o1, s1)"
    using chunkSigner_step[OF _ e0 l, of K sg ts] by (auto simp: newSigner_def s1_def large_sums)
  obtain o2 where 2: "chunkSigner K F sg ts s1 c = (Inr o2, s2)"
    using chunkSigner_step[OF _ e1 l, of K sg ts] by (auto simp: s1_def s2_def large_sums)
  obtain o3 where 3: "chunkSigner K F sg ts s2 c = (Inr o3, s3)"
    using chunkSigner_step[OF _ e2 l, of K sg ts] by (auto simp: s2_def s3_def large_sums)
  have "lengthIs None (Num 0)" by (simp add: lengthIs_Num)
  then obtain o4 where 4: "chunkSigner K F sg ts s3 None = (Inr o4, s4)"
    using chunkSigner_step[OF _ e3, of None K sg ts] by (auto simp: s3_def s4_def large_sums)
  have "\<not> lengthIs (Some (BodyBuffer [0])) (fst (expected F s3))"
    by (simp add: e3 lengthIs_Num)
  then have 5: "chunkSigner K F sg ts s3 (Some (BodyBuffer [0]))
       = (Inl (UnexpectedChunkSize (ReportedLength (Num 1)) (Num 0)), s3)"
    using chunkSigner_mismatch[of s3 "Some (BodyBuffer [0])" F K sg ts]
    by (simp add: e3) (simp add: s3_def)
  show ?thesis
    by (rule that[OF 1[unfolded c_def] 2[unfolded c_def] 3[unfolded c_def] _ _ 5 4])
      (simp_all add: s3_def s4_def)
qed

text \<open>
  Claim C10, for a body length and a chunk length below \<open>2 ^ 53\<close>. In every state that a
  sequence of calls reaches from the signer's creation (calls that throw included, the
  driver going on after them), \<open>dataCount\<close> is the sum of the lengths of the chunks accepted
  so far and lies between 0 and \<open>bodyLength\<close>; \<open>done\<close> implies \<open>dataCount = bodyLength\<close>;
  and a call that throws leaves the whole state (\<open>dataCount\<close>, the chained signature and
  \<open>done\<close>) as it was.
\<close>

theorem chunkSigner_state_invariant:
  assumes "chunkFraming N (Num B) (Num C) = Inr F" and "B < 2 ^ 53" and "C < 2 ^ 53"
    and "callSigner K F sg ts (newSigner seed) cs = (rs, st)"
  shows "dataCount st = Num (acceptedBytes cs rs)
     \<and> 0 \<le> acceptedBytes cs rs \<and> acceptedBytes cs rs \<le> B
     \<and> (isDone st \<longrightarrow> dataCount st = Num B)
     \<and> (\<forall>c e. fst (chunkSigner K F sg ts st c) = Inl e \<longrightarrow> snd (chunkSigner K F sg ts st c) = st)"
proof -
  note f = chunkFraming_Inr[OF assms(1,2,3)]
  have "dataCount (newSigner seed) = Num 0" by (simp add: newSigner_def)
  from callSigner_inv[OF assms(1,2,3) signerInv_new[OF f(4)] this assms(4)]
  have "signerInv B C st" and "dataCount st = Num (acceptedBytes cs rs)" by simp_all
  then show ?thesis
    using chunkSigner_error_atomic[of K F sg ts st]
    by (auto elim!: signerInvD)
qed

theorem chunkSigner_state_invariant_witness:
  "\<exists>F rs st. chunkFraming stubFormat (Num 16484) (Num 8192) = Inr F
     \<and> callSigner stubCrypto F \<lparr> key = [], scope = [] \<rparr> [] (newSigner [])
          [Some (BodyHash [] (Some 8192)), None, Some (BodyHash [] (Some 8192)),
           Some (BodyHash [] (Some 100)), Some (BodyBuffer []), None] = (rs, st)
     \<and> map isl rs = [False, True, False, False, False, True]
     \<and> isDone st \<and> dataCount st = Num 16484 \<and> acceptedBytes
          [Some (BodyHash [] (Some 8192)), None, Some (BodyHash [] (Some 8192)),
           Some (BodyHash [] (Some 100)), Some (BodyBuffer []), None] rs = 16484
     \<and> fst (chunkSigner stubCrypto F \<lparr> key = [], scope = [] \<rparr> [] st None) = Inl PayloadComplete
     \<and> snd (chunkSigner stubCrypto F \<lparr> key = [], scope = [] \<rparr> [] st None) = st"
proof -
  define cs where "cs = [Some (BodyHash [] (Some 8192)), None, Some (BodyHash [] (Some 8192)),
           Some (BodyHash [] (Some 100)), Some (BodyBuffer []), None]"
  have s: "(16484::int) < 2 ^ 53" "(8192::int) < 2 ^ 53" by simp_all
  obtain F where F: "chunkFraming stubFormat (Num 16484) (Num 8192) = Inr F"
    using chunkFraming_valid[of 8192 16484 stubFormat] by auto
  obtain rs st where r: "callSigner stubCrypto F \<lparr> key = [], scope = [] \<rparr> [] (newSigner []) cs = (rs, st)"
    by (cases "callSigner stubCrypto F \<lparr> key = [], scope = [] \<rparr> [] (newSigner []) cs")
  note f = chunkFraming_Inr[OF F s]
  have a: "numAdd (Num 0) (Num 8192) = Num 8192" "numAdd (Num 8192) (Num 8192) = Num 16384"
    "numAdd (Num 16384) (Num 100) = Num 16484" "numAdd (Num 16484) (Num 0) = Num 16484"
    "numSub (Num 16484) (Num 0) = Num 16484" "numSub (Num 16484) (Num 8192) = Num 8292"
    "numSub (Num 16484) (Num 16384) = Num 100" "numSub (Num 16484) (Num 16484) = Num 0"
    by (simp_all add: numAdd_safe numSub_safe)
  have m: "map isl rs = [False, True, False, False, False, True] \<and> isDone st"
    using r by (auto simp: cs_def chunkSigner_def expected_def newSigner_def f a lengthIs_Num Let_def
        split: prod.splits)
  have d: "fst (chunkSigner stubCrypto F \<lparr> key = [], scope = [] \<rparr> [] st None) = Inl PayloadComplete"
    using m by (simp add: chunkSigner_def)
  from chunkSigner_state_invariant[OF F s r] m d show ?thesis
    unfolding cs_def[symmetric] using F r by auto
qed

text \<open>
  Without the bound the count is not the sum: for a body of 13510798882111492 bytes and
  chunks of \<open>2 ^ 52 + 1\<close> bytes, the signer accepts three chunks and the terminal marker and
  is done with \<open>dataCount = bodyLength\<close>, one more than the 13510798882111491 bytes that it
  accepted.
\<close>

theorem chunkSigner_state_invariant_counterexample:
  "\<exists>F rs st. chunkFraming stubFormat (Num 13510798882111492) (Num 4503599627370497) = Inr F
     \<and> callSigner stubCrypto F \<lparr> key = [], scope = [] \<rparr> [] (newSigner [])
          [Some (BodyHash [] (Some 4503599627370497)), Some (BodyHash [] (Some 4503599627370497)),
           Some (BodyHash [] (Some 4503599627370497)), None] = (rs, st)
     \<and> map isl rs = [False, False, False, False] \<and> isDone st
     \<and> dataCount st = Num 13510798882111492
     \<and> acceptedBytes
          [Some (BodyHash [] (Some 4503599627370497)), Some (BodyHash [] (Some 4503599627370497)),
           Some (BodyHash [] (Some 4503599627370497)), None] rs = 13510798882111491"
proof -
  obtain F where F: "chunkFraming stubFormat (Num 13510798882111492) (Num 4503599627370497) = Inr F"
    using large_framing_ex by blast
  from large_steps[OF F, of stubCrypto "\<lparr> key = [], scope = [] \<rparr>" "[]" "[]" "[]"]
  obtain o1 o2 o3 o4 s1 s2 s3 s4 where
    "chunkSigner stubCrypto F \<lparr> key = [], scope = [] \<rparr> [] (newSigner [])
       (Some (BodyHash [] (Some 4503599627370497))) = (Inr o1, s1)"
    "chunkSigner stubCrypto F \<lparr> key = [], scope = [] \<rparr> [] s1 (Some (BodyHash [] (Some 4503599627370497))) = (Inr o2, s2)"
    "chunkSigner stubCrypto F \<lparr> key = [], scope = [] \<rparr> [] s2 (Some (BodyHash [] (Some 4503599627370497))) = (Inr o3, s3)"
    "chunkSigner stubCrypto F \<lparr> key = [], scope = [] \<rparr> [] s3 None = (Inr o4, s4)" "isDone s4"
    "dataCount s4 = Num 13510798882111492"
    by metis
  then show ?thesis using F by (simp add: bytesOf_def)
qed

text \<open>
  Claim C1, for a body length \<open>B\<close> and a chunk length \<open>C\<close> below \<open>2 ^ 53\<close> on which
  \<open>calculateChunks\<close> does not throw (\<open>B \<ge> 0\<close> and \<open>C \<ge> 8192\<close>). Then \<open>chunks = B div C\<close> and
  \<open>lastLength = B - chunks * C\<close>; once \<open>d\<close> bytes are signed a call expects \<open>C\<close> while
  \<open>B - d \<ge> C\<close>, else \<open>lastLength\<close> if \<open>d \<noteq> B\<close>, else 0; a call with any other length throws
  and a call after completion throws; every run of successful calls from creation follows
  the conforming sequence of lengths and is complete exactly after
  \<open>chunks + (if lastLength > 0 then 1 else 0) + 1\<close> calls; and every prefix of the conforming
  sequence is accepted.
\<close>

theorem chunkSigner_call_contract:
  assumes "chunkFraming N (Num B) (Num C) = Inr F" and "B < 2 ^ 53" and "C < 2 ^ 53"
  shows "chunks F = Num (B div C) \<and> lastLength F = Num (B - (B div C) * C)
     \<and> (\<forall>st d. dataCount st = Num d \<and> 0 \<le> d \<and> d \<le> B \<longrightarrow>
           fst (expected F st) = Num (expectedLength B C d))
     \<and> (\<forall>st c. \<not> isDone st \<and> \<not> lengthIs c (fst (expected F st)) \<longrightarrow>
           chunkSigner K F sg ts st c
             = (Inl (UnexpectedChunkSize (chunkAndLength c) (fst (expected F st))), st))
     \<and> (\<forall>st c. isDone st \<longrightarrow> chunkSigner K F sg ts st c = (Inl PayloadComplete, st))
     \<and> (\<forall>cs outs st. runSigner K F sg ts (newSigner seed) cs = Inr (outs, st) \<longrightarrow>
           map chunkLen cs = map (Some \<circ> Num) (take (length cs) (conformingLengths B C))
           \<and> length cs \<le> conformingCalls B C
           \<and> (isDone st \<longleftrightarrow> length cs = conformingCalls B C))
     \<and> (\<forall>cs n. map chunkLen cs = map (Some \<circ> Num) (take n (conformingLengths B C)) \<longrightarrow>
           (\<exists>outs st. runSigner K F sg ts (newSigner seed) cs = Inr (outs, st)
              \<and> length outs = length cs \<and> (isDone st \<longleftrightarrow> conformingCalls B C \<le> n)))"
proof -
  note f = chunkFraming_Inr[OF assms]
  have 1: "chunks F = Num (B div C) \<and> lastLength F = Num (B - (B div C) * C)"
    using f(5,6) by (simp add: minus_div_mult_eq_mod)
  have 2: "\<forall>st d. dataCount st = Num d \<and> 0 \<le> d \<and> d \<le> B \<longrightarrow>
           fst (expected F st) = Num (expectedLength B C d)"
    using expected_fst(2)[OF assms] by blast
  have 3: "\<forall>st c. \<not> isDone st \<and> \<not> lengthIs c (fst (expected F st)) \<longrightarrow>
           chunkSigner K F sg ts st c
             = (Inl (UnexpectedChunkSize (chunkAndLength c) (fst (expected F st))), st)"
    using chunkSigner_mismatch by blast
  have 4: "\<forall>st c. isDone st \<longrightarrow> chunkSigner K F sg ts st c = (Inl PayloadComplete, st)"
    using chunkSigner_done by blast
  have 5: "\<forall>cs outs st. runSigner K F sg ts (newSigner seed) cs = Inr (outs, st) \<longrightarrow>
           map chunkLen cs = map (Some \<circ> Num) (take (length cs) (conformingLengths B C))
           \<and> length cs \<le> conformingCalls B C
           \<and> (isDone st \<longleftrightarrow> length cs = conformingCalls B C)"
  proof (intro allI impI)
    fix cs outs st
    assume r: "runSigner K F sg ts (newSigner seed) cs = Inr (outs, st)"
    show "map chunkLen cs = map (Some \<circ> Num) (take (length cs) (conformingLengths B C))
           \<and> length cs \<le> conformingCalls B C
           \<and> (isDone st \<longleftrightarrow> length cs = conformingCalls B C)"
      using runSigner_new(1,2,3)[OF assms r] by simp
  qed
  have 6: "\<forall>cs n. map chunkLen cs = map (Some \<circ> Num) (take n (conformingLengths B C)) \<longrightarrow>
           (\<exists>outs st. runSigner K F sg ts (newSigner seed) cs = Inr (outs, st)
              \<and> length outs = length cs \<and> (isDone st \<longleftrightarrow> conformingCalls B C \<le> n))"
  proof (intro allI impI)
    fix cs n
    assume c: "map chunkLen cs = map (Some \<circ> Num) (take n (conformingLengths B C))"
    show "\<exists>outs st. runSigner K F sg ts (newSigner seed) cs = Inr (outs, st)
              \<and> length outs = length cs \<and> (isDone st \<longleftrightarrow> conformingCalls B C \<le> n)"
      by (rule runSigner_new_conforming[OF assms c])
  qed
  from 1 2 3 4 5 6 show ?thesis by (intro conjI) (elim conjE | assumption)+
qed

theorem chunkSigner_call_contract_witness:
  "\<exists>F. chunkFraming stubFormat (Num 16484) (Num 8192) = Inr F \<and> chunks F = Num 2 \<and> lastLength F = Num 100
     \<and> conformingLengths 16484 8192 = [8192, 8192, 100, 0] \<and> conformingCalls 16484 8192 = 4
     \<and> chunkSigner stubCrypto F \<lparr> key = [], scope = [] \<rparr> [] (newSigner []) None
          = (Inl (UnexpectedChunkSize ReportedUndefined (Num 8192)), newSigner [])
     \<and> (\<exists>outs st. runSigner stubCrypto F \<lparr> key = [], scope = [] \<rparr> [] (newSigner [])
          [Some (BodyHash [] (Some 8192)), Some (BodyHash [] (Some 8192)),
           Some (BodyHash [] (Some 100)), None] = Inr (outs, st) \<and> isDone st \<and> length outs = 4
          \<and> chunkSigner stubCrypto F \<lparr> key = [], scope = [] \<rparr> [] st None = (Inl PayloadComplete, st))"
proof -
  have s: "(16484::int) < 2 ^ 53" "(8192::int) < 2 ^ 53" by simp_all
  obtain F where F: "chunkFraming stubFormat (Num 16484) (Num 8192) = Inr F"
    using chunkFraming_valid[of 8192 16484 stubFormat] by auto
  note t = chunkSigner_call_contract[OF F s, of stubCrypto "\<lparr> key = [], scope = [] \<rparr>" "[]" "[]"]
  have c: "chunks F = Num 2" "lastLength F = Num 100" using t by simp_all
  have l: "conformingLengths 16484 8192 = [8192, 8192, 100, 0]" "conformingCalls 16484 8192 = 4"
    by (simp_all add: conformingLengths_def conformingCalls_def numeral_2_eq_2)
  have "dataCount (newSigner []) = Num 0 \<and> (0::int) \<le> 0 \<and> (0::int) \<le> 16484"
    by (simp add: newSigner_def)
  with t have e: "fst (expected F (newSigner [])) = Num (expectedLength 16484 8192 0)" by blast
  then have e': "fst (expected F (newSigner [])) = Num 8192" by (simp add: expectedLength_def)
  have "\<not> isDone (newSigner [])" by (simp add: newSigner_def)
  moreover have "\<not> lengthIs None (fst (expected F (newSigner [])))"
    by (simp add: e' lengthIs_Num)
  ultimately have "\<not> isDone (newSigner []) \<and> \<not> lengthIs None (fst (expected F (newSigner [])))"
    by (rule conjI)
  with t have m: "chunkSigner stubCrypto F \<lparr> key = [], scope = [] \<rparr> [] (newSigner []) None
          = (Inl (UnexpectedChunkSize (chunkAndLength None) (fst (expected F (newSigner [])))), newSigner [])"
    by blast
  have "map chunkLen [Some (BodyHash [] (Some 8192)), Some (BodyHash [] (Some 8192)),
           Some (BodyHash [] (Some 100)), None] = map (Some \<circ> Num) (take 4 (conformingLengths 16484 8192))"
    by (simp add: l)
  with t obtain outs st where r: "runSigner stubCrypto F \<lparr> key = [], scope = [] \<rparr> [] (newSigner [])
          [Some (BodyHash [] (Some 8192)), Some (BodyHash [] (Some 8192)),
           Some (BodyHash [] (Some 100)), None] = Inr (outs, st)"
      "length outs = length [Some (BodyHash [] (Some 8192)), Some (BodyHash [] (Some 8192)),
           Some (BodyHash [] (Some 100)), None::body option]"
      "isDone st \<longleftrightarrow> conformingCalls 16484 8192 \<le> 4"
    by blast
  from r(3) have d: "isDone st" by (simp add: l)
  have "chunkSigner stubCrypto F \<lparr> key = [], scope = [] \<rparr> [] st None = (Inl PayloadComplete, st)"
    using t d by blast
  with F c l m[unfolded e'] r d show ?thesis by simp
qed

text \<open>
  Without the bound the count of calls is another: for a body of 13510798882111492 bytes and
  chunks of \<open>2 ^ 52 + 1\<close> bytes the integers give 3 chunks, a last length of 1 and 5 calls,
  where the code has a last length of 0 and is done after 4 calls.
\<close>

theorem chunkSigner_call_contract_counterexample:
  "\<exists>F outs st. chunkFraming stubFormat (Num 13510798882111492) (Num 4503599627370497) = Inr F
     \<and> (13510798882111492::int) div 4503599627370497 = 3
     \<and> (13510798882111492::int) - 3 * 4503599627370497 = 1
     \<and> conformingCalls 13510798882111492 4503599627370497 = 5
     \<and> chunks F = Num 3 \<and> lastLength F = Num 0
     \<and> runSigner stubCrypto F \<lparr> key = [], scope = [] \<rparr> [] (newSigner [])
          [Some (BodyHash [] (Some 4503599627370497)), Some (BodyHash [] (Some 4503599627370497)),
           Some (BodyHash [] (Some 4503599627370497)), None] = Inr (outs, st)
     \<and> length outs = 4 \<and> isDone st"
proof -
  obtain F where F: "chunkFraming stubFormat (Num 13510798882111492) (Num 4503599627370497) = Inr F"
    using large_framing_ex by blast
  from large_steps[OF F, of stubCrypto "\<lparr> key = [], scope = [] \<rparr>" "[]" "[]" "[]"]
  obtain o1 o2 o3 o4 s1 s2 s3 s4 where
    "chunkSigner stubCrypto F \<lparr> key = [], scope = [] \<rparr> [] (newSigner [])
       (Some (BodyHash [] (Some 4503599627370497))) = (Inr o1, s1)"
    "chunkSigner stubCrypto F \<lparr> key = [], scope = [] \<rparr> [] s1 (Some (BodyHash [] (Some 4503599627370497))) = (Inr o2, s2)"
    "chunkSigner stubCrypto F \<lparr> key = [], scope = [] \<rparr> [] s2 (Some (BodyHash [] (Some 4503599627370497))) = (Inr o3, s3)"
    "chunkSigner stubCrypto F \<lparr> key = [], scope = [] \<rparr> [] s3 None = (Inr o4, s4)" "isDone s4"
    by metis
  then show ?thesis using F large_framing(3,4)[OF F] by (simp add: conformingCalls_def)
qed

section \<open>The framing strings\<close>

lemma hexDigit_in: "hexDigit d \<in> set (str ''0123456789abcdef'')"
proof -
  have "d mod 16 < length ''0123456789abcdef''" by simp
  then have "''0123456789abcdef'' ! (d mod 16) \<in> set ''0123456789abcdef''" by (rule nth_mem)
  then have "of_char (''0123456789abcdef'' ! (d mod 16)) \<in> of_char ` set ''0123456789abcdef''"
    by (rule imageI)
  then show ?thesis unfolding hexDigit_def str_def set_map .
qed

lemma bufferToHex_hex: "isHex (bufferToHex b)"
  unfolding isHex_def bufferToHex_def using hexDigit_in by auto

lemma length_bufferToHex: "length (bufferToHex b) = 2 * length b"
  unfolding bufferToHex_def by (induction b) simp_all

lemma signS3Chunk_64:
  assumes "\<forall>k m. length (hmac_sha256 K k m) = 32"
  shows "length (signS3Chunk K prev sg ts c) = 64" "isHex (signS3Chunk K prev sg ts c)"
  using assms by (simp_all add: signS3Chunk_def Let_def length_bufferToHex bufferToHex_hex
      signDigest_def signString_def)

lemma toString16_0: "toString16 N (Num 0) = str ''0''"
  by (simp add: toString16.simps natToHex.simps hexDigit_def str_def)

lemma expected_header:
  assumes F: "chunkFraming N (Num B) (Num C) = Inr F" and sB: "B < 2 ^ 53" and sC: "C < 2 ^ 53"
  shows "snd (expected F st) = toString16 N (fst (expected F st)) @ str '';chunk-signature=''"
  using chunkFraming_Inr[OF F sB sC] by (simp add: expected_def toString16_0 str_def)

lemma runSigner_frames:
  assumes F: "chunkFraming N (Num B) (Num C) = Inr F" and sB: "B < 2 ^ 53" and sC: "C < 2 ^ 53"
  shows "signerInv B C st \<Longrightarrow> runSigner K F sg ts st cs = Inr (outs, st') \<Longrightarrow>
         outs = frames N K sg ts (dataCount st = Num 0) (signature st) cs"
proof (induction cs arbitrary: st outs)
  case Nil
  then show ?case by simp
next
  case (Cons c cs)
  note f = chunkFraming_Inr[OF F sB sC]
  from Cons.prems(2) obtain out st1 outs1 where
    c: "chunkSigner K F sg ts st c = (Inr out, st1)"
    and r: "runSigner K F sg ts st1 cs = Inr (outs1, st')" and o: "outs = out # outs1"
    by (auto split: prod.splits sum.splits)
  from Cons.prems(1) obtain d where d: "dataCount st = Num d"
    and i: "0 \<le> d" "d \<le> B" "d = B \<or> d mod C = 0"
    by (auto elim!: signerInvD)
  note e = expected_fst(2)[OF F sB sC d i(1,2)]
  from chunkSigner_InrD[OF c] have nd: "\<not> isDone st"
    and l: "chunkLen c = Some (Num (expectedLength B C d))"
    by (simp_all add: e lengthIs_Num)
  note a = chunkSigner_accept[OF F sB sC Cons.prems(1) d nd l, of K sg ts]
  have b: "bytesOf c = expectedLength B C d" using l by (simp add: bytesOf_def)
  have out: "out = frame N (dataCount st = Num 0) (bytesOf c) (signS3Chunk K (signature st) sg ts c)"
    using a c expected_header[OF F sB sC, of st] by (simp add: frame_def b e d)
  have st1: "signature st1 = signS3Chunk K (signature st) sg ts c"
    "dataCount st1 = Num (d + expectedLength B C d)" "isDone st1 = (expectedLength B C d = 0)"
    using a c by auto
  have i1: "signerInv B C st1" using signerInv_step[OF F sB sC Cons.prems(1), of K sg ts c] c by simp
  have "outs1 = frames N K sg ts False (signature st1) cs"
  proof (cases cs)
    case Nil
    then show ?thesis using r by simp
  next
    case (Cons c' cs')
    have "\<not> isDone st1" using r chunkSigner_done[of st1 K F sg ts c'] Cons by auto
    then have "0 < expectedLength B C d"
      using st1(3) expectedLength_props(1)[OF f(3) i] by simp
    then have "dataCount st1 \<noteq> Num 0" using st1(2) i(1) by simp
    then show ?thesis using Cons.IH[OF i1 r] by simp
  qed
  then show ?case using o out st1(1) by (simp add: Let_def)
qed

lemma runSigner_new_frames:
  assumes F: "chunkFraming N (Num B) (Num C) = Inr F" and sB: "B < 2 ^ 53" and sC: "C < 2 ^ 53"
    and r: "runSigner K F sg ts (newSigner seed) cs = Inr (outs, st)"
  shows "outs = frames N K sg ts True seed cs"
  using runSigner_frames[OF F sB sC signerInv_new[OF chunkFraming_Inr(4)[OF F sB sC]] r]
  by (simp add: newSigner_def)

lemma stubCrypto_32: "\<forall>k m. length (hmac_sha256 stubCrypto k m) = 32"
  by (simp add: stubCrypto_def)

lemma stub_signature: "signS3Chunk stubCrypto prev \<lparr> key = [], scope = [] \<rparr> [] c
      = concat (replicate 32 (str ''00''))"
  by (simp add: signS3Chunk_def signDigest_def signString_def stubCrypto_def bufferToHex_def
      hexDigit_def str_def Let_def)

text \<open>
  Claim C2, for a body length and a chunk length below \<open>2 ^ 53\<close>. Every prefix of the
  conforming call sequence returns, and the framing strings of any run of successful calls
  from the signer's creation are the frames of the specification: the leading CRLF is left out
  exactly on the first call, each string holds \<open><hex-length>;chunk-signature=<signature>\<close> and
  a CRLF, the signature being 64 hexadecimal digits (for a MAC of 32 bytes, as HMAC-SHA256
  gives), and one more CRLF on the terminal zero-length call. For \<open>bodyLength = 0\<close> and
  \<open>chunkLength = 8192\<close> the chain is one call, of length 0, and its output is
  \<open>0;chunk-signature=<sig>\<close> followed by two CRLF.
\<close>

theorem chunkSigner_framing:
  assumes "chunkFraming N (Num B) (Num C) = Inr F" and "B < 2 ^ 53" and "C < 2 ^ 53"
    and "\<forall>k m. length (hmac_sha256 K k m) = 32"
  shows "(\<forall>cs n. map chunkLen cs = map (Some \<circ> Num) (take n (conformingLengths B C)) \<longrightarrow>
           (\<exists>st. runSigner K F sg ts (newSigner seed) cs = Inr (frames N K sg ts True seed cs, st)))
     \<and> (\<forall>cs outs st. runSigner K F sg ts (newSigner seed) cs = Inr (outs, st) \<longrightarrow>
           outs = frames N K sg ts True seed cs)
     \<and> (\<forall>prev c. length (signS3Chunk K prev sg ts c) = 64 \<and> isHex (signS3Chunk K prev sg ts c))
     \<and> (B = 0 \<and> C = 8192 \<longrightarrow>
          conformingLengths B C = [0]
          \<and> (\<forall>c. chunkLen c = Some (Num 0) \<longrightarrow>
               (\<exists>st. runSigner K F sg ts (newSigner seed) [c]
                  = Inr ([str ''0;chunk-signature='' @ signS3Chunk K seed sg ts c @ CRLF @ CRLF], st)
                  \<and> isDone st)))"
proof -
  note F = assms(1) and sB = assms(2) and sC = assms(3) and h = assms(4)
  have 1: "\<forall>cs n. map chunkLen cs = map (Some \<circ> Num) (take n (conformingLengths B C)) \<longrightarrow>
           (\<exists>st. runSigner K F sg ts (newSigner seed) cs = Inr (frames N K sg ts True seed cs, st))"
  proof (intro allI impI)
    fix cs n
    assume c: "map chunkLen cs = map (Some \<circ> Num) (take n (conformingLengths B C))"
    from runSigner_new_conforming[OF F sB sC c]
    obtain outs st where r: "runSigner K F sg ts (newSigner seed) cs = Inr (outs, st)" by blast
    from runSigner_new_frames[OF F sB sC r] r
    show "\<exists>st. runSigner K F sg ts (newSigner seed) cs = Inr (frames N K sg ts True seed cs, st)"
      by blast
  qed
  have 2: "\<forall>cs outs st. runSigner K F sg ts (newSigner seed) cs = Inr (outs, st) \<longrightarrow>
           outs = frames N K sg ts True seed cs"
    using runSigner_new_frames[OF F sB sC] by blast
  have 3: "\<forall>prev c. length (signS3Chunk K prev sg ts c) = 64 \<and> isHex (signS3Chunk K prev sg ts c)"
    using signS3Chunk_64[OF h] by blast
  have 4: "conformingLengths B C = [0]
          \<and> (\<forall>c. chunkLen c = Some (Num 0) \<longrightarrow>
               (\<exists>st. runSigner K F sg ts (newSigner seed) [c]
                  = Inr ([str ''0;chunk-signature='' @ signS3Chunk K seed sg ts c @ CRLF @ CRLF], st)
                  \<and> isDone st))"
    if b: "B = 0" "C = 8192"
  proof
    show l: "conformingLengths B C = [0]" using b by (simp add: conformingLengths_def)
    show "\<forall>c. chunkLen c = Some (Num 0) \<longrightarrow>
               (\<exists>st. runSigner K F sg ts (newSigner seed) [c]
                  = Inr ([str ''0;chunk-signature='' @ signS3Chunk K seed sg ts c @ CRLF @ CRLF], st)
                  \<and> isDone st)"
    proof (intro allI impI)
      fix c
      assume z: "chunkLen c = Some (Num 0)"
      then have "map chunkLen [c] = map (Some \<circ> Num) (take 1 (conformingLengths B C))"
        by (simp add: l)
      from runSigner_new_conforming[OF F sB sC this]
      obtain outs st where r: "runSigner K F sg ts (newSigner seed) [c] = Inr (outs, st)"
        and d: "isDone st \<longleftrightarrow> conformingCalls B C \<le> 1" by blast
      have "conformingCalls B C = 1" using b by (simp add: conformingCalls_def)
      with d have d': "isDone st" by simp
      have "outs = [str ''0;chunk-signature='' @ signS3Chunk K seed sg ts c @ CRLF @ CRLF]"
        using runSigner_new_frames[OF F sB sC r] z
        by (simp add: Let_def frame_def bytesOf_def toString16_0 str_def)
      with r d' show "\<exists>st. runSigner K F sg ts (newSigner seed) [c]
                  = Inr ([str ''0;chunk-signature='' @ signS3Chunk K seed sg ts c @ CRLF @ CRLF], st)
                  \<and> isDone st" by blast
    qed
  qed
  have 5: "B = 0 \<and> C = 8192 \<longrightarrow>
          conformingLengths B C = [0]
          \<and> (\<forall>c. chunkLen c = Some (Num 0) \<longrightarrow>
               (\<exists>st. runSigner K F sg ts (newSigner seed) [c]
                  = Inr ([str ''0;chunk-signature='' @ signS3Chunk K seed sg ts c @ CRLF @ CRLF], st)
                  \<and> isDone st))"
    using 4 by blast
  show ?thesis by (intro conjI) (rule 1 2 3 5)+
qed

theorem chunkSigner_framing_witness:
  "(\<exists>F st. chunkFraming stubFormat (Num 16484) (Num 8192) = Inr F
     \<and> runSigner stubCrypto F \<lparr> key = [], scope = [] \<rparr> [] (newSigner [])
          [Some (BodyHash [] (Some 8192)), Some (BodyHash [] (Some 8192)),
           Some (BodyHash [] (Some 100)), None]
        = Inr ([str ''2000;chunk-signature='' @ concat (replicate 32 (str ''00'')) @ CRLF,
                CRLF @ str ''2000;chunk-signature='' @ concat (replicate 32 (str ''00'')) @ CRLF,
                CRLF @ str ''64;chunk-signature='' @ concat (replicate 32 (str ''00'')) @ CRLF,
                CRLF @ str ''0;chunk-signature='' @ concat (replicate 32 (str ''00'')) @ CRLF @ CRLF], st))
   \<and> (\<exists>F st. chunkFraming stubFormat (Num 0) (Num 8192) = Inr F
     \<and> runSigner stubCrypto F \<lparr> key = [], scope = [] \<rparr> [] (newSigner []) [None]
        = Inr ([str ''0;chunk-signature='' @ concat (replicate 32 (str ''00'')) @ CRLF @ CRLF], st)
     \<and> isDone st)"
proof
  have s: "(16484::int) < 2 ^ 53" "(8192::int) < 2 ^ 53" by simp_all
  obtain F where F: "chunkFraming stubFormat (Num 16484) (Num 8192) = Inr F"
    using chunkFraming_valid[of 8192 16484 stubFormat] by auto
  note t = chunkSigner_framing[OF F s stubCrypto_32, of "\<lparr> key = [], scope = [] \<rparr>" "[]" "[]"]
  have l: "conformingLengths 16484 8192 = [8192, 8192, 100, 0]"
    by (simp add: conformingLengths_def numeral_2_eq_2)
  have h1: "toString16 stubFormat (Num 8192) = str ''2000''"
    and h2: "toString16 stubFormat (Num 100) = str ''64''"
    by (simp_all add: toString16.simps natToHex.simps hexDigit_def str_def)
  define cs where "cs = [Some (BodyHash [] (Some 8192)), Some (BodyHash [] (Some 8192)),
           Some (BodyHash [] (Some 100)), None]"
  have "map chunkLen cs = map (Some \<circ> Num) (take 4 (conformingLengths 16484 8192))"
    by (simp add: l cs_def)
  with t obtain st where r: "runSigner stubCrypto F \<lparr> key = [], scope = [] \<rparr> [] (newSigner []) cs
      = Inr (frames stubFormat stubCrypto \<lparr> key = [], scope = [] \<rparr> [] True [] cs, st)"
    by blast
  have "frames stubFormat stubCrypto \<lparr> key = [], scope = [] \<rparr> [] True [] cs
      = [str ''2000;chunk-signature='' @ concat (replicate 32 (str ''00'')) @ CRLF,
         CRLF @ str ''2000;chunk-signature='' @ concat (replicate 32 (str ''00'')) @ CRLF,
         CRLF @ str ''64;chunk-signature='' @ concat (replicate 32 (str ''00'')) @ CRLF,
         CRLF @ str ''0;chunk-signature='' @ concat (replicate 32 (str ''00'')) @ CRLF @ CRLF]"
    unfolding cs_def frames.simps Let_def stub_signature
    by (simp add: frame_def bytesOf_def h1 h2 toString16_0) (simp add: str_def)
  with r F show "\<exists>F st. chunkFraming stubFormat (Num 16484) (Num 8192) = Inr F
     \<and> runSigner stubCrypto F \<lparr> key = [], scope = [] \<rparr> [] (newSigner [])
          [Some (BodyHash [] (Some 8192)), Some (BodyHash [] (Some 8192)),
           Some (BodyHash [] (Some 100)), None]
        = Inr ([str ''2000;chunk-signature='' @ concat (replicate 32 (str ''00'')) @ CRLF,
                CRLF @ str ''2000;chunk-signature='' @ concat (replicate 32 (str ''00'')) @ CRLF,
                CRLF @ str ''64;chunk-signature='' @ concat (replicate 32 (str ''00'')) @ CRLF,
                CRLF @ str ''0;chunk-signature='' @ concat (replicate 32 (str ''00'')) @ CRLF @ CRLF], st)"
    unfolding cs_def by auto
next
  have s: "(0::int) < 2 ^ 53" "(8192::int) < 2 ^ 53" by simp_all
  obtain F where F: "chunkFraming stubFormat (Num 0) (Num 8192) = Inr F"
    using chunkFraming_valid[of 8192 0 stubFormat] by auto
  note t = chunkSigner_framing[OF F s stubCrypto_32, of "\<lparr> key = [], scope = [] \<rparr>" "[]" "[]"]
  have "chunkLen None = Some (Num 0)" by simp
  with t obtain st where "runSigner stubCrypto F \<lparr> key = [], scope = [] \<rparr> [] (newSigner []) [None]
        = Inr ([str ''0;chunk-signature='' @ signS3Chunk stubCrypto [] \<lparr> key = [], scope = [] \<rparr> [] None
                 @ CRLF @ CRLF], st)" "isDone st"
    by blast
  with F show "\<exists>F st. chunkFraming stubFormat (Num 0) (Num 8192) = Inr F
     \<and> runSigner stubCrypto F \<lparr> key = [], scope = [] \<rparr> [] (newSigner []) [None]
        = Inr ([str ''0;chunk-signature='' @ concat (replicate 32 (str ''00'')) @ CRLF @ CRLF], st)
     \<and> isDone st"
    unfolding stub_signature by blast
qed

text \<open>
  Without the bound a conforming call can throw: for a body of 13510798882111492 bytes and
  chunks of \<open>2 ^ 52 + 1\<close> bytes the conforming sequence has a chunk of one byte after the
  three full chunks, and the signer refuses it.
\<close>

theorem chunkSigner_framing_counterexample:
  "\<exists>F. chunkFraming stubFormat (Num 13510798882111492) (Num 4503599627370497) = Inr F
     \<and> conformingLengths 13510798882111492 4503599627370497
         = [4503599627370497, 4503599627370497, 4503599627370497, 1, 0]
     \<and> map chunkLen
          [Some (BodyHash [] (Some 4503599627370497)), Some (BodyHash [] (Some 4503599627370497)),
           Some (BodyHash [] (Some 4503599627370497)), Some (BodyBuffer [0]), None]
         = map (Some \<circ> Num) (conformingLengths 13510798882111492 4503599627370497)
     \<and> runSigner stubCrypto F \<lparr> key = [], scope = [] \<rparr> [] (newSigner [])
          [Some (BodyHash [] (Some 4503599627370497)), Some (BodyHash [] (Some 4503599627370497)),
           Some (BodyHash [] (Some 4503599627370497)), Some (BodyBuffer [0]), None]
        = Inl (UnexpectedChunkSize (ReportedLength (Num 1)) (Num 0))"
proof -
  obtain F where F: "chunkFraming stubFormat (Num 13510798882111492) (Num 4503599627370497) = Inr F"
    using large_framing_ex by blast
  have l: "conformingLengths 13510798882111492 4503599627370497
         = [4503599627370497, 4503599627370497, 4503599627370497, 1, 0]"
    by (simp add: conformingLengths_def numeral_3_eq_3)
  from large_steps[OF F, of stubCrypto "\<lparr> key = [], scope = [] \<rparr>" "[]" "[]" "[]"]
  obtain o1 o2 o3 s1 s2 s3 where
    "chunkSigner stubCrypto F \<lparr> key = [], scope = [] \<rparr> [] (newSigner [])
       (Some (BodyHash [] (Some 4503599627370497))) = (Inr o1, s1)"
    "chunkSigner stubCrypto F \<lparr> key = [], scope = [] \<rparr> [] s1 (Some (BodyHash [] (Some 4503599627370497))) = (Inr o2, s2)"
    "chunkSigner stubCrypto F \<lparr> key = [], scope = [] \<rparr> [] s2 (Some (BodyHash [] (Some 4503599627370497))) = (Inr o3, s3)"
    "chunkSigner stubCrypto F \<lparr> key = [], scope = [] \<rparr> [] s3 (Some (BodyBuffer [0]))
       = (Inl (UnexpectedChunkSize (ReportedLength (Num 1)) (Num 0)), s3)"
    by metis
  then show ?thesis using F l by simp
qed

section \<open>The cache of the signing data\<close>

lemma cache_second_call:
  "cachedCalls K makeSimpleCache
     [(str ''20200101'', str ''abc/def'', str ''us-east-1'', str ''s3''),
      (str ''20200101'', str ''abc'', str ''def/us-east-1'', str ''s3'')]
   = [Some (getSigningData K (str ''20200101'') (str ''abc/def'') (str ''us-east-1'') (str ''s3'')),
      Some (getSigningData K (str ''20200101'') (str ''abc/def'') (str ''us-east-1'') (str ''s3''))]"
  by (simp add: cached_getSigningData_def makeSimpleCache_def Let_def str_def)

lemma scope_a: "scope (getSigningData K (str ''20200101'') (str ''abc/def'') (str ''us-east-1'') (str ''s3''))
  = str ''20200101/us-east-1/s3/aws4_request''"
  by (simp add: getSigningData_def Let_def str_def)

lemma scope_b: "scope (getSigningData K (str ''20200101'') (str ''abc'') (str ''def/us-east-1'') (str ''s3''))
  = str ''20200101/def/us-east-1/s3/aws4_request''"
  by (simp add: getSigningData_def Let_def str_def)

text \<open>
  Claim C9 states that the function made by \<open>makeSimpleCache\<close> returns on every call what
  \<open>getSigningData\<close> returns for that call's arguments. The cache key is the four arguments
  joined by \<open>/\<close>, so two different argument tuples can share a key: after a call with
  the secret \<open>abc/def\<close> and the region \<open>us-east-1\<close>, a call with the secret \<open>abc\<close> and
  the region \<open>def/us-east-1\<close> is served the first call's signing data, whose scope (and
  key) is not that of its own arguments, whatever the MAC.
\<close>

theorem makeSimpleCache_collision:
  "\<forall>K. \<exists>r1 r2. cachedCalls K makeSimpleCache
       [(str ''20200101'', str ''abc/def'', str ''us-east-1'', str ''s3''),
        (str ''20200101'', str ''abc'', str ''def/us-east-1'', str ''s3'')] = [Some r1, Some r2]
     \<and> scope r2 = str ''20200101/us-east-1/s3/aws4_request''
     \<and> scope (getSigningData K (str ''20200101'') (str ''abc'') (str ''def/us-east-1'') (str ''s3''))
         = str ''20200101/def/us-east-1/s3/aws4_request''
     \<and> r2 \<noteq> getSigningData K (str ''20200101'') (str ''abc'') (str ''def/us-east-1'') (str ''s3'')"
proof
  fix K
  have "getSigningData K (str ''20200101'') (str ''abc/def'') (str ''us-east-1'') (str ''s3'')
     \<noteq> getSigningData K (str ''20200101'') (str ''abc'') (str ''def/us-east-1'') (str ''s3'')"
  proof
    assume "getSigningData K (str ''20200101'') (str ''abc/def'') (str ''us-east-1'') (str ''s3'')
     = getSigningData K (str ''20200101'') (str ''abc'') (str ''def/us-east-1'') (str ''s3'')"
    then have "str ''20200101/us-east-1/s3/aws4_request'' = str ''20200101/def/us-east-1/s3/aws4_request''"
      using scope_a[of K] scope_b[of K] by simp
    then show False by (simp add: str_def)
  qed
  then show "\<exists>r1 r2. cachedCalls K makeSimpleCache
       [(str ''20200101'', str ''abc/def'', str ''us-east-1'', str ''s3''),
        (str ''20200101'', str ''abc'', str ''def/us-east-1'', str ''s3'')] = [Some r1, Some r2]
     \<and> scope r2 = str ''20200101/us-east-1/s3/aws4_request''
     \<and> scope (getSigningData K (str ''20200101'') (str ''abc'') (str ''def/us-east-1'') (str ''s3''))
         = str ''20200101/def/us-east-1/s3/aws4_request''
     \<and> r2 \<noteq> getSigningData K (str ''20200101'') (str ''abc'') (str ''def/us-east-1'') (str ''s3'')"
    using cache_second_call[of K] scope_a[of K] scope_b[of K] by simp
qed

text \<open>The collision needs a \<open>/\<close> in the date, the secret or the region: on calls without
  one, the cached function returns what \<open>getSigningData\<close> returns, at every call.\<close>

lemma sep_split:
  "s \<notin> set a \<Longrightarrow> s \<notin> set a' \<Longrightarrow> a @ s # r = a' @ s # r' \<Longrightarrow> a = a' \<and> r = r'"
proof (induction a arbitrary: a')
  case Nil then show ?case by (cases a') auto
next
  case (Cons x xs) then show ?case by (cases a') auto
qed

lemma join4: "join [s] [a, b, c, d] = a @ s # b @ s # c @ s # d"
  by simp

lemma join4_inj:
  assumes "s \<notin> set a" "s \<notin> set b" "s \<notin> set c" "s \<notin> set a'" "s \<notin> set b'" "s \<notin> set c'"
    and "join [s] [a, b, c, d] = join [s] [a', b', c', d']"
  shows "a = a' \<and> b = b' \<and> c = c' \<and> d = d'"
proof -
  from assms(7) have 1: "a @ s # (b @ s # c @ s # d) = a' @ s # (b' @ s # c' @ s # d')"
    unfolding join4 .
  from sep_split[OF assms(1,4) 1] have a: "a = a'" and 2: "b @ s # (c @ s # d) = b' @ s # (c' @ s # d')"
    by simp_all
  from sep_split[OF assms(2,5) 2] have b: "b = b'" and 3: "c @ s # d = c' @ s # d'" by simp_all
  from sep_split[OF assms(3,6) 3] a b show ?thesis by simp
qed

lemma getSigningData_take: "getSigningData K (take 8 a) b c d = getSigningData K a b c d"
  by (simp add: getSigningData_def Let_def)

lemma cached_step:
  assumes "cacheInv K cs" "slashFree (a, b, c, d)"
  shows "fst (cached_getSigningData K cs a b c d) = Some (getSigningData K a b c d)"
    and "cacheInv K (snd (cached_getSigningData K cs a b c d))"
proof -
  have sl: "str ''/'' = [of_char CHR ''/'']" by (simp add: str_def)
  show "fst (cached_getSigningData K cs a b c d) = Some (getSigningData K a b c d)"
  proof (cases "cacheKey cs = Some (join (str ''/'') [take 8 a, b, c, d])")
    case False
    then show ?thesis by (simp add: cached_getSigningData_def Let_def getSigningData_take)
  next
    case True
    with assms(1) obtain a0 b0 c0 d0 where s0: "slashFree (a0, b0, c0, d0)"
      and k: "join (str ''/'') [take 8 a, b, c, d] = join (str ''/'') [take 8 a0, b0, c0, d0]"
      and v: "cacheValue cs = Some (getSigningData K a0 b0 c0 d0)"
      by (auto simp: cacheInv_def)
    have "take 8 a = take 8 a0 \<and> b = b0 \<and> c = c0 \<and> d = d0"
      using assms(2) s0 k unfolding sl slashFree_def
      by (intro join4_inj) (auto dest: in_set_takeD)
    then have "getSigningData K a0 b0 c0 d0 = getSigningData K a b c d"
      using getSigningData_take[of K a b c d] getSigningData_take[of K a0 b0 c0 d0] by simp
    with True v show ?thesis by (simp add: cached_getSigningData_def Let_def)
  qed
  show "cacheInv K (snd (cached_getSigningData K cs a b c d))"
  proof (cases "cacheKey cs = Some (join (str ''/'') [take 8 a, b, c, d])")
    case True
    with assms(1) show ?thesis by (simp add: cached_getSigningData_def Let_def)
  next
    case False
    have "slashFree (a, b, c, d) \<and> Some (join (str ''/'') [take 8 a, b, c, d])
            = Some (join (str ''/'') [take 8 a, b, c, d])
          \<and> Some (getSigningData K (take 8 a) b c d) = Some (getSigningData K a b c d)"
      using assms(2) by (simp add: getSigningData_take)
    then have "cacheInv K \<lparr> cacheKey = Some (join (str ''/'') [take 8 a, b, c, d]),
                 cacheValue = Some (getSigningData K (take 8 a) b c d) \<rparr>"
      unfolding cacheInv_def by (intro disjI2 exI[of _ a] exI[of _ b] exI[of _ c] exI[of _ d]) simp
    with False show ?thesis by (simp add: cached_getSigningData_def Let_def)
  qed
qed

lemma cachedCalls_slashFree:
  assumes "cacheInv K cs" "list_all slashFree calls"
  shows "cachedCalls K cs calls = map (\<lambda>(a, b, c, d). Some (getSigningData K a b c d)) calls"
  using assms
proof (induction calls arbitrary: cs)
  case Nil then show ?case by simp
next
  case (Cons t rest)
  obtain a b c d where t: "t = (a, b, c, d)" by (cases t) auto
  obtain v cs' where e: "cached_getSigningData K cs a b c d = (v, cs')"
    by (cases "cached_getSigningData K cs a b c d") auto
  from Cons.prems t have s: "slashFree (a, b, c, d)" by simp
  from cached_step[OF Cons.prems(1) s] e have v: "v = Some (getSigningData K a b c d)" and i: "cacheInv K cs'"
    by simp_all
  from Cons.prems have "list_all slashFree rest" by simp
  from Cons.IH[OF i this] show ?case by (simp add: t e v)
qed

lemma makeSimpleCache_slashFree:
  assumes "list_all slashFree calls"
  shows "cachedCalls K makeSimpleCache calls = map (\<lambda>(a, b, c, d). Some (getSigningData K a b c d)) calls"
  using assms by (intro cachedCalls_slashFree) (simp_all add: cacheInv_def makeSimpleCache_def)

section \<open>The canonical query\<close>

lemma uniq_aux:
  "distinct acc \<Longrightarrow>
   distinct (foldl (\<lambda>acc x. if x \<in> set acc then acc else acc @ [x]) acc xs)
   \<and> set (foldl (\<lambda>acc x. if x \<in> set acc then acc else acc @ [x]) acc xs) = set acc \<union> set xs"
  by (induction xs arbitrary: acc) auto

lemma distinct_uniq: "distinct (uniq xs)" and set_uniq: "set (uniq xs) = set xs"
  using uniq_aux[of "[]" xs] by (simp_all add: uniq_def)

lemma sort_uniq: "sort (uniq xs) = sorted_list_of_set (set xs)"
  using distinct_uniq[of xs] set_uniq[of xs]
  by (metis sorted_list_of_set_sort_remdups distinct_remdups_id)

lemma concat_map_if_filter:
  "concat (map (\<lambda>k. if P k then [] else f k) ks) = concat (map f (filter (\<lambda>k. \<not> P k) ks))"
  by (induction ks) simp_all

lemma filter_sorted_list_of_set:
  "finite S \<Longrightarrow> filter P (sorted_list_of_set S) = sorted_list_of_set {x \<in> S. P x}"
  by (rule sorted_distinct_set_unique) (auto simp: sorted_filter[where f="\<lambda>x. x", simplified])

lemma canonicalQueryParts_keys:
  "canonicalQueryParts q =
     concat (map (\<lambda>k. map (\<lambda>v. escape k @ str ''='' @ escape v) (sort (getAll q k)))
                 (sorted_list_of_set {k \<in> fst ` set q. k \<noteq> []}))"
  by (simp add: canonicalQueryParts_def sort_uniq concat_map_if_filter filter_sorted_list_of_set)

lemma set_canonicalQueryParts:
  "set (canonicalQueryParts q) = (\<lambda>(k, v). escape k @ str ''='' @ escape v) ` {(k, v) \<in> set q. k \<noteq> []}"
  unfolding canonicalQueryParts_keys by (force simp: getAll_def)

lemma length_filter_keys:
  "distinct ks \<Longrightarrow>
   (\<Sum>k\<leftarrow>ks. length (filter (\<lambda>p. fst p = k) q)) = length (filter (\<lambda>p. fst p \<in> set ks) q)"
proof (induction ks)
  case Nil
  then show ?case by simp
next
  case (Cons k ks)
  have "length (filter (\<lambda>p. fst p = k \<or> fst p \<in> set ks) q)
      = length (filter (\<lambda>p. fst p = k) q) + length (filter (\<lambda>p. fst p \<in> set ks) q)"
    using Cons.prems by (induction q) auto
  with Cons show ?case by simp
qed

lemma length_canonicalQueryParts:
  "length (canonicalQueryParts q) = length (filter (\<lambda>(k, v). k \<noteq> []) q)"
proof -
  let ?ks = "sorted_list_of_set {k \<in> fst ` set q. k \<noteq> []}"
  have "length (canonicalQueryParts q) = (\<Sum>k\<leftarrow>?ks. length (filter (\<lambda>p. fst p = k) q))"
    unfolding canonicalQueryParts_keys by (simp add: length_concat comp_def getAll_def)
  also have "\<dots> = length (filter (\<lambda>p. fst p \<in> set ?ks) q)"
    by (rule length_filter_keys) simp
  also have "filter (\<lambda>p. fst p \<in> set ?ks) q = filter (\<lambda>(k, v). k \<noteq> []) q"
    by (rule filter_cong) auto
  finally show ?thesis .
qed

text \<open>
  Claim C7. \<open>getCanonicalQuery\<close> (of \<open>dist/http.js\<close>) computes the canonical query of the
  specification: it drops exactly the pairs whose key is the empty string and emits every
  other pair once, the unique keys sorted by UTF-16 code unit and the values of each key
  sorted, as \<open>escapedKey=escapedValue\<close> joined by \<open>&\<close>.
\<close>

theorem getCanonicalQuery_spec:
  "getCanonicalQuery q = canonicalQuerySpec q
   \<and> set (canonicalQueryParts q)
       = (\<lambda>(k, v). escape k @ str ''='' @ escape v) ` {(k, v) \<in> set q. k \<noteq> []}
   \<and> length (canonicalQueryParts q) = length (filter (\<lambda>(k, v). k \<noteq> []) q)"
  using canonicalQueryParts_keys[of q] set_canonicalQueryParts[of q] length_canonicalQueryParts[of q]
  by (simp add: getCanonicalQuery_def canonicalQuerySpec_def)

lemma escape_ascii_examples:
  "escape (str ''a'') = str ''a''" "escape (str ''b'') = str ''b''"
  "escape (str ''0'') = str ''0''" "escape (str ''1'') = str ''1''" "escape (str ''2 /'') = str ''2%20%2F''"
  by (simp_all add: escape_def escapeByte_def str_def)

theorem getCanonicalQuery_spec_witness:
  "canonicalQuerySpec [([], str ''x''), (str ''b'', str ''2 /''), (str ''a'', str ''1''), (str ''a'', str ''0'')]
     = str ''a=0&a=1&b=2%20%2F''"
proof -
  have "getCanonicalQuery [([], str ''x''), (str ''b'', str ''2 /''), (str ''a'', str ''1''), (str ''a'', str ''0'')]
     = str ''a=0&a=1&b=2%20%2F''"
    by (simp add: getCanonicalQuery_def canonicalQueryParts_def uniq_def getAll_def escape_ascii_examples)
       (simp add: str_def)
  then show ?thesis
    using getCanonicalQuery_spec[of "[([], str ''x''), (str ''b'', str ''2 /''), (str ''a'', str ''1''), (str ''a'', str ''0'')]"]
    by simp
qed

text \<open>The function of \<open>src/http.ts\<close> agrees with the compiled one on queries without an
  empty key, and returns nothing at all on the others.\<close>

lemma queryLoop_ts_eq:
  "queryLoop_ts q parts ks =
     (if [] \<in> set ks then None
      else Some (join (str ''&'')
             (parts @ concat (map (\<lambda>k. if k = [] then []
                        else map (\<lambda>v. (escape k @ str ''='') @ escape v) (sort (getAll q k))) ks))))"
  by (induction ks arbitrary: parts) auto

lemma getCanonicalQuery_ts_eq:
  "getCanonicalQuery_ts q = (if [] \<in> fst ` set q then None else Some (getCanonicalQuery q))"
  by (simp add: getCanonicalQuery_ts_def queryLoop_ts_eq getCanonicalQuery_def
      canonicalQueryParts_def set_uniq)

lemma getCanonicalQuery_ts_example:
  "getCanonicalQuery_ts [([], str ''x''), (str ''a'', str ''1'')] = None"
  "canonicalQueryParts [([], str ''x''), (str ''a'', str ''1'')] = [escape (str ''a'') @ str ''='' @ escape (str ''1'')]"
  by (simp_all add: getCanonicalQuery_ts_eq canonicalQueryParts_def uniq_def getAll_def str_def)

section \<open>The Authorization header\<close>

lemma mapGet_lastValue: "mapGet fs k = lastValue fs k"
proof -
  have "map_of xs k = (case filter (\<lambda>p. fst p = k) xs of [] \<Rightarrow> None | p # _ \<Rightarrow> Some (snd p))" for xs
    by (induction xs) (auto split: list.splits)
  then show ?thesis by (simp add: mapGet_def lastValue_def rev_filter)
qed

lemma lastValue_Some_iff: "(\<exists>v. lastValue fs k = Some v) \<longleftrightarrow> k \<in> fst ` set fs"
proof -
  have "(filter (\<lambda>p. fst p = k) fs = []) \<longleftrightarrow> k \<notin> fst ` set fs"
    by (auto simp: filter_empty_conv)
  then show ?thesis by (auto simp: lastValue_def split: list.splits)
qed

lemma signatureRegex_valid: "signatureRegex s \<longleftrightarrow> validSignature s"
  by (induction s rule: signatureRegex.induct) (auto simp: validSignature_def)

lemma parseAuthorization_headerFields:
  "parseAuthorization h =
     (case headerFields h of
        Inl e \<Rightarrow> Inl e
      | Inr (alg, fs) \<Rightarrow>
          (case (lastValue fs (str ''Signature''), lastValue fs (str ''Credential''),
                 lastValue fs (str ''SignedHeaders'')) of
             (Some sig, Some cred, Some sh) \<Rightarrow>
               if \<not> validSignature sig then Inl InvalidSignatureFormat
               else Inr \<lparr> algorithm = alg, credential = cred, signedHeaders = sh,
                          signatureBuf = bufferFromHex sig \<rparr>
           | _ \<Rightarrow> Inl MissingFields))"
  by (auto simp: parseAuthorization_def headerFields_def mapGet_lastValue signatureRegex_valid Let_def
      split: sum.splits prod.splits option.splits)

lemma trimLeft_id: "\<not> startsWithSpace s \<Longrightarrow> trimLeft s = s"
  by (cases s) (simp_all add: trimLeft_def startsWithSpace_def)

lemma trim_id: "\<not> startsWithSpace s \<Longrightarrow> \<not> endsWithSpace s \<Longrightarrow> trim s = s"
proof -
  assume a: "\<not> startsWithSpace s" and b: "\<not> endsWithSpace s"
  have 1: "dropWhile isSpace s = s" using a by (cases s) (simp_all add: startsWithSpace_def)
  have 2: "dropWhile isSpace (rev s) = rev s"
    using b by (cases "rev s") (simp_all add: startsWithSpace_def endsWithSpace_def)
  show ?thesis by (simp add: trim_def 1 2)
qed

lemma trim_lead:
  assumes "\<forall>c \<in> set ws. isSpace c" "s \<noteq> []" "\<not> startsWithSpace s" "\<not> endsWithSpace s"
  shows "trim (ws @ s) = s"
proof -
  have 1: "dropWhile isSpace (ws @ s) = s"
    using assms(1,3) by (cases s) (simp_all add: startsWithSpace_def dropWhile_append3)
  have 2: "dropWhile isSpace (rev s) = rev s"
    using assms(4) by (cases "rev s") (simp_all add: startsWithSpace_def endsWithSpace_def)
  show ?thesis by (simp add: trim_def 1 2)
qed

lemma split1_append: "t \<notin> set a \<Longrightarrow> split1 (a @ t # b) t = Inr (a, b)"
proof -
  assume n: "t \<notin> set a"
  then have 1: "takeWhile (\<lambda>c. c \<noteq> t) (a @ t # b) = a"
    by (induction a) auto
  from n have 2: "dropWhile (\<lambda>c. c \<noteq> t) (a @ t # b) = t # b"
    by (induction a) auto
  show ?thesis by (simp add: split1_def 1 2)
qed

lemma splitOn_none: "c \<notin> set a \<Longrightarrow> splitOn c a = [a]"
  by (induction a) auto

lemma splitOn_append: "c \<notin> set a \<Longrightarrow> splitOn c (a @ c # b) = a # splitOn c b"
  by (induction a) auto

lemma splitOn_not_Nil: "splitOn c z \<noteq> []"
  by (induction z) (auto split: list.splits)

lemma splitOn_prefix:
  "c \<notin> set sep \<Longrightarrow> splitOn c (sep @ z) = (sep @ hd (splitOn c z)) # tl (splitOn c z)"
  using splitOn_not_Nil[of c z] by (induction sep) (auto split: list.splits)

lemma splitOn_join:
  assumes "c \<notin> set sep"
  shows "\<forall>y \<in> set (x # xs). c \<notin> set y \<Longrightarrow>
         splitOn c (join (c # sep) (x # xs)) = x # map (\<lambda>y. sep @ y) xs"
proof (induction xs arbitrary: x)
  case Nil
  then show ?case by (simp add: splitOn_none)
next
  case (Cons y ys)
  have "splitOn c (join (c # sep) (y # ys)) = y # map (\<lambda>y. sep @ y) ys"
    using Cons by simp
  then show ?case
    using Cons.prems assms by (simp add: splitOn_append splitOn_prefix)
qed

lemma isSpace_simps: "isSpace 32" "\<not> isSpace 61"
  by (simp_all add: isSpace_def)

lemma str_simps: "str '' '' = [32]" "str '', '' = [44, 32]" "str ''='' = [61]"
  "(of_char CHR '' '' :: 16 word) = 32" "(of_char CHR '','' :: 16 word) = 44"
  "(of_char CHR ''='' :: 16 word) = 61"
  by (simp_all add: str_def)

lemma startsWithSpace_append:
  "startsWithSpace (a @ b) = (if a = [] then startsWithSpace b else startsWithSpace a)"
  by (cases a) (simp_all add: startsWithSpace_def)

lemma renderField_wf:
  assumes "wfField f"
  shows "renderField f \<noteq> []" "\<not> startsWithSpace (renderField f)" "\<not> endsWithSpace (renderField f)"
    "44 \<notin> set (renderField f)" "split1 (renderField f) 61 = Inr f"
proof -
  obtain k v where f: "f = (k, v)" by (cases f)
  from assms have w: "44 \<notin> set k" "44 \<notin> set v" "61 \<notin> set k" "\<not> startsWithSpace k" "\<not> endsWithSpace v"
    by (simp_all add: wfField_def f str_simps)
  show "renderField f \<noteq> []" by (simp add: renderField_def str_simps)
  show "\<not> startsWithSpace (renderField f)"
    using w(4) by (simp add: renderField_def f str_simps startsWithSpace_append)
       (simp add: startsWithSpace_def isSpace_simps)
  show "\<not> endsWithSpace (renderField f)"
    using w(5) by (simp add: renderField_def f str_simps endsWithSpace_def startsWithSpace_append)
       (simp add: startsWithSpace_def isSpace_simps)
  show "44 \<notin> set (renderField f)" using w(1,2) by (simp add: renderField_def f str_simps)
  show "split1 (renderField f) 61 = Inr f"
    using split1_append[OF w(3), of v] by (simp add: renderField_def f str_simps)
qed

lemma mapSplit1_render:
  "\<forall>f \<in> set fs. wfField f \<Longrightarrow> mapSplit1 (map renderField fs) = Inr fs"
  by (induction fs) (simp_all add: renderField_wf(5) str_simps)

lemma headerFields_render:
  assumes a: "wfAlgorithm alg" and ne: "fs \<noteq> []" and w: "\<forall>f \<in> set fs. wfField f"
  shows "headerFields (renderHeader alg fs) = Inr (alg, fs)"
proof -
  obtain f0 fs' where fs: "fs = f0 # fs'" using ne by (cases fs) auto
  have r: "renderHeader alg fs = alg @ 32 # join (44 # [32]) (map renderField fs)"
    by (simp add: renderHeader_def str_simps)
  have a': "alg \<noteq> []" "32 \<notin> set alg" "\<not> startsWithSpace alg" "\<not> endsWithSpace alg"
    using a by (simp_all add: wfAlgorithm_def str_simps)
  have 1: "trimLeft (renderHeader alg fs) = renderHeader alg fs"
    by (rule trimLeft_id) (simp add: r startsWithSpace_append a')
  have 2: "split1 (renderHeader alg fs) 32 = Inr (alg, join (44 # [32]) (map renderField fs))"
    unfolding r by (rule split1_append[OF a'(2)])
  have "splitOn 44 (join (44 # [32]) (map renderField fs))
      = renderField f0 # map (\<lambda>y. [32] @ y) (map renderField fs')"
    unfolding fs list.map
    by (rule splitOn_join) (use w fs renderField_wf(4) in auto)
  then have 3: "splitOn 44 (join (44 # [32]) (map renderField fs))
      = renderField f0 # map ((#) 32) (map renderField fs')"
    by (simp del: map_map)
  have 4: "map trim (renderField f0 # map ((#) 32) (map renderField fs')) = map renderField fs"
  proof -
    have "trim (renderField f) = renderField f" if "wfField f" for f
      using renderField_wf[OF that] by (simp add: trim_id)
    moreover have "trim ([32] @ renderField f) = renderField f" if "wfField f" for f
      using renderField_wf[OF that] by (intro trim_lead) (simp_all add: isSpace_simps)
    ultimately show ?thesis using w by (simp add: fs)
  qed
  show ?thesis
    by (simp add: headerFields_def 1 str_simps 2 3 4 mapSplit1_render[OF w] trim_id[OF a'(3,4)]
        del: map_map list.map)
qed

lemma hexDigit_nth: "hexDigit d = HEX ! (d mod 16)"
proof -
  have "map of_char ''0123456789abcdef'' = HEX" by simp
  then have "HEX ! (d mod 16) = map of_char ''0123456789abcdef'' ! (d mod 16)" by simp
  also have "\<dots> = of_char (''0123456789abcdef'' ! (d mod 16))" by (rule nth_map) simp
  finally show ?thesis by (simp only: hexDigit_def)
qed

lemma HEX_all: "list_all (\<lambda>c. isHexDigit c \<and> \<not> isSpace c \<and> c \<noteq> 44) HEX"
  by (simp add: isHexDigit_def isSpace_def)

lemma HEX_values: "map hexValue HEX = map Some [0..<16]"
  by (simp add: hexValue_def upt_rec)

lemma hexDigit_props:
  "isHexDigit (hexDigit d)" "hexValue (hexDigit d) = Some (d mod 16)"
  "\<not> isSpace (hexDigit d)" "hexDigit d \<noteq> 44"
proof -
  have l: "d mod 16 < length HEX" by simp
  from HEX_all l
  have "isHexDigit (HEX ! (d mod 16)) \<and> \<not> isSpace (HEX ! (d mod 16)) \<and> HEX ! (d mod 16) \<noteq> 44"
    unfolding list_all_length by blast
  then show "isHexDigit (hexDigit d)" "\<not> isSpace (hexDigit d)" "hexDigit d \<noteq> 44"
    unfolding hexDigit_nth by blast+
  have "hexValue (HEX ! (d mod 16)) = map hexValue HEX ! (d mod 16)"
    using l by (rule nth_map[symmetric])
  also have "\<dots> = Some (d mod 16)" unfolding HEX_values by simp
  finally show "hexValue (hexDigit d) = Some (d mod 16)" unfolding hexDigit_nth .
qed

lemma bufferFromHex_bufferToHex: "bufferFromHex (bufferToHex b) = b"
proof (induction b)
  case Nil
  then show ?case by (simp add: bufferToHex_def)
next
  case (Cons x b)
  have "unat x < 256" using unsigned_less[of x, where ?'a = nat] by simp
  then have "unat x div 16 mod 16 = unat x div 16" by simp
  then have "16 * (unat x div 16 mod 16) + unat x mod 16 = unat x" by simp
  then show ?case using Cons by (simp add: bufferToHex_def hexDigit_props)
qed

lemma bufferToHex_props:
  "validSignature (bufferToHex b) \<longleftrightarrow> b \<noteq> []" "44 \<notin> set (bufferToHex b)"
  "\<not> endsWithSpace (bufferToHex b)"
proof -
  have a: "list_all isHexDigit (bufferToHex b)"
    by (induction b) (simp_all add: bufferToHex_def hexDigit_props)
  have l: "length (bufferToHex b) = 2 * length b"
    by (induction b) (simp_all add: bufferToHex_def)
  show "validSignature (bufferToHex b) \<longleftrightarrow> b \<noteq> []"
    using a l by (auto simp: validSignature_def)
  show "44 \<notin> set (bufferToHex b)"
    by (induction b) (simp_all add: bufferToHex_def hexDigit_props)
  have "\<forall>c \<in> set (bufferToHex b). \<not> isSpace c"
    by (induction b) (simp_all add: bufferToHex_def hexDigit_props)
  then have "\<forall>c \<in> set (rev (bufferToHex b)). \<not> isSpace c" by simp
  then show "\<not> endsWithSpace (bufferToHex b)"
    unfolding endsWithSpace_def startsWithSpace_def by (cases "rev (bufferToHex b)") auto
qed

lemma buildAuthorization_render:
  "buildAuthorization x = renderHeader (algorithm x)
     [(str ''Credential'', credential x), (str ''SignedHeaders'', signedHeaders x),
      (str ''Signature'', bufferToHex (signatureBuf x))]"
  by (simp add: buildAuthorization_def renderHeader_def renderField_def str_def)

lemma names_wf:
  "44 \<notin> set (str ''Credential'')" "61 \<notin> set (str ''Credential'')" "\<not> startsWithSpace (str ''Credential'')"
  "44 \<notin> set (str ''SignedHeaders'')" "61 \<notin> set (str ''SignedHeaders'')" "\<not> startsWithSpace (str ''SignedHeaders'')"
  "44 \<notin> set (str ''Signature'')" "61 \<notin> set (str ''Signature'')" "\<not> startsWithSpace (str ''Signature'')"
  by (simp_all add: str_def startsWithSpace_def isSpace_def)

lemma names_distinct:
  "str ''Credential'' \<noteq> str ''SignedHeaders''" "str ''Credential'' \<noteq> str ''Signature''"
  "str ''SignedHeaders'' \<noteq> str ''Signature''"
  by (simp_all add: str_def)

text \<open>
  Claim C4, amended. For every authorization record whose algorithm is not empty, has no
  space and neither starts nor ends with white space, whose credential and signed headers
  have no \<open>,\<close> and no \<open>=\<close> and do not end with white space, and whose signature is a
  non-empty buffer, \<open>parseAuthorization (buildAuthorization x)\<close> succeeds and returns \<open>x\<close>.
  As the claim words it (below, the counterexample) the round trip fails: the parser trims
  every field, so a credential that ends with a space comes back without it.
\<close>

theorem parseAuthorization_buildAuthorization:
  assumes "wellFormed x"
  shows "parseAuthorization (buildAuthorization x) = Inr x"
proof -
  let ?fs = "[(str ''Credential'', credential x), (str ''SignedHeaders'', signedHeaders x),
      (str ''Signature'', bufferToHex (signatureBuf x))]"
  from assms have a: "wfAlgorithm (algorithm x)"
    by (simp add: wellFormed_def claimedWellFormed_def wfAlgorithm_def)
  from assms have w: "\<forall>f \<in> set ?fs. wfField f"
    by (simp add: wellFormed_def claimedWellFormed_def wfField_def names_wf str_simps bufferToHex_props)
  have h: "headerFields (buildAuthorization x) = Inr (algorithm x, ?fs)"
    unfolding buildAuthorization_render by (rule headerFields_render[OF a _ w]) simp
  have l: "lastValue ?fs (str ''Signature'') = Some (bufferToHex (signatureBuf x))"
    "lastValue ?fs (str ''Credential'') = Some (credential x)"
    "lastValue ?fs (str ''SignedHeaders'') = Some (signedHeaders x)"
    using names_distinct by (simp_all add: lastValue_def)
  have v: "validSignature (bufferToHex (signatureBuf x))"
    using assms by (simp add: bufferToHex_props wellFormed_def claimedWellFormed_def)
  show ?thesis
    by (simp add: parseAuthorization_headerFields h l v bufferFromHex_bufferToHex del: lastValue_def)
qed

theorem parseAuthorization_buildAuthorization_witness:
  "wellFormed \<lparr> algorithm = str ''AWS4-HMAC-SHA256'',
       credential = str ''AKID/20200101/us-east-1/s3/aws4_request'',
       signedHeaders = str ''host;x-amz-date'', signatureBuf = [0xAB, 0x01] \<rparr>
   \<and> parseAuthorization (buildAuthorization \<lparr> algorithm = str ''AWS4-HMAC-SHA256'',
       credential = str ''AKID/20200101/us-east-1/s3/aws4_request'',
       signedHeaders = str ''host;x-amz-date'', signatureBuf = [0xAB, 0x01] \<rparr>)
     = Inr \<lparr> algorithm = str ''AWS4-HMAC-SHA256'',
       credential = str ''AKID/20200101/us-east-1/s3/aws4_request'',
       signedHeaders = str ''host;x-amz-date'', signatureBuf = [0xAB, 0x01] \<rparr>"
proof -
  have w: "wellFormed \<lparr> algorithm = str ''AWS4-HMAC-SHA256'',
       credential = str ''AKID/20200101/us-east-1/s3/aws4_request'',
       signedHeaders = str ''host;x-amz-date'', signatureBuf = [0xAB, 0x01] \<rparr>"
    by (simp add: wellFormed_def claimedWellFormed_def startsWithSpace_def endsWithSpace_def
        isSpace_def str_def)
  from parseAuthorization_buildAuthorization[OF w] w show ?thesis by simp
qed

lemma trailing_space_example:
  "parseAuthorization (buildAuthorization \<lparr> algorithm = str ''AWS4-HMAC-SHA256'',
       credential = str ''AKID '', signedHeaders = str ''host'', signatureBuf = [0xAB] \<rparr>)
   = Inr \<lparr> algorithm = str ''AWS4-HMAC-SHA256'',
       credential = str ''AKID'', signedHeaders = str ''host'', signatureBuf = [0xAB] \<rparr>"
proof -
  have b: "buildAuthorization \<lparr> algorithm = str ''AWS4-HMAC-SHA256'',
       credential = str ''AKID '', signedHeaders = str ''host'', signatureBuf = [0xAB] \<rparr>
    = str ''AWS4-HMAC-SHA256 Credential=AKID , SignedHeaders=host, Signature=ab''"
    by (simp add: buildAuthorization_def bufferToHex_def hexDigit_def str_def)
  have s: "str ''AWS4-HMAC-SHA256 Credential=AKID , SignedHeaders=host, Signature=ab''
    = str ''AWS4-HMAC-SHA256'' @ 32 # str ''Credential=AKID , SignedHeaders=host, Signature=ab''"
    by (simp add: str_def)
  have 1: "trimLeft (str ''AWS4-HMAC-SHA256 Credential=AKID , SignedHeaders=host, Signature=ab'')
     = str ''AWS4-HMAC-SHA256 Credential=AKID , SignedHeaders=host, Signature=ab''"
    by (simp add: trimLeft_def str_def isSpace_def)
  have 2: "split1 (str ''AWS4-HMAC-SHA256 Credential=AKID , SignedHeaders=host, Signature=ab'') 32
     = Inr (str ''AWS4-HMAC-SHA256'', str ''Credential=AKID , SignedHeaders=host, Signature=ab'')"
    unfolding s by (rule split1_append) (simp add: str_def)
  have 3: "splitOn 44 (str ''Credential=AKID , SignedHeaders=host, Signature=ab'')
     = [str ''Credential=AKID '', str '' SignedHeaders=host'', str '' Signature=ab'']"
    by (simp add: str_def)
  have 4: "map trim [str ''Credential=AKID '', str '' SignedHeaders=host'', str '' Signature=ab'']
     = [str ''Credential=AKID'', str ''SignedHeaders=host'', str ''Signature=ab'']"
    by (simp add: trim_def str_def isSpace_def)
  have 5: "mapSplit1 [str ''Credential=AKID'', str ''SignedHeaders=host'', str ''Signature=ab'']
     = Inr [(str ''Credential'', str ''AKID''), (str ''SignedHeaders'', str ''host''),
            (str ''Signature'', str ''ab'')]"
    by (simp add: split1_def str_def)
  have 6: "trim (str ''AWS4-HMAC-SHA256'') = str ''AWS4-HMAC-SHA256''"
    by (simp add: trim_def str_def isSpace_def)
  have h: "headerFields (str ''AWS4-HMAC-SHA256 Credential=AKID , SignedHeaders=host, Signature=ab'')
     = Inr (str ''AWS4-HMAC-SHA256'', [(str ''Credential'', str ''AKID''), (str ''SignedHeaders'', str ''host''),
            (str ''Signature'', str ''ab'')])"
    by (simp add: headerFields_def 1 2 3 4 5 6 str_simps del: list.map mapSplit1.simps)
  have l: "lastValue [(str ''Credential'', str ''AKID''), (str ''SignedHeaders'', str ''host''),
            (str ''Signature'', str ''ab'')] (str ''Signature'') = Some (str ''ab'')"
    "lastValue [(str ''Credential'', str ''AKID''), (str ''SignedHeaders'', str ''host''),
            (str ''Signature'', str ''ab'')] (str ''Credential'') = Some (str ''AKID'')"
    "lastValue [(str ''Credential'', str ''AKID''), (str ''SignedHeaders'', str ''host''),
            (str ''Signature'', str ''ab'')] (str ''SignedHeaders'') = Some (str ''host'')"
    using names_distinct by (simp_all add: lastValue_def)
  have v: "validSignature (str ''ab'')" "bufferFromHex (str ''ab'') = [0xAB]"
    by (simp_all add: validSignature_def isHexDigit_def hexValue_def str_def)
  show ?thesis unfolding b
    by (simp add: parseAuthorization_headerFields h l v)
qed

theorem parseAuthorization_buildAuthorization_counterexample:
  "\<not> (\<forall>x. claimedWellFormed x \<longrightarrow> parseAuthorization (buildAuthorization x) = Inr x)"
proof
  assume a: "\<forall>x. claimedWellFormed x \<longrightarrow> parseAuthorization (buildAuthorization x) = Inr x"
  have "claimedWellFormed \<lparr> algorithm = str ''AWS4-HMAC-SHA256'',
       credential = str ''AKID '', signedHeaders = str ''host'', signatureBuf = [0xAB] \<rparr>"
    by (simp add: claimedWellFormed_def str_def)
  with a have "parseAuthorization (buildAuthorization \<lparr> algorithm = str ''AWS4-HMAC-SHA256'',
       credential = str ''AKID '', signedHeaders = str ''host'', signatureBuf = [0xAB] \<rparr>)
     = Inr \<lparr> algorithm = str ''AWS4-HMAC-SHA256'',
       credential = str ''AKID '', signedHeaders = str ''host'', signatureBuf = [0xAB] \<rparr>" by blast
  then show False unfolding trailing_space_example by (simp add: str_def)
qed

lemma headerFields_error: "headerFields h = Inl e \<Longrightarrow> e = InvalidAuthorizationStructure"
proof -
  have s: "split1 x t = Inl e' \<Longrightarrow> e' = InvalidAuthorizationStructure" for x t e'
    by (auto simp: split1_def split: if_splits)
  have m: "mapSplit1 xs = Inl e' \<Longrightarrow> e' = InvalidAuthorizationStructure" for xs e'
    by (induction xs) (auto split: sum.splits dest: s)
  show "headerFields h = Inl e \<Longrightarrow> e = InvalidAuthorizationStructure"
    by (auto simp: headerFields_def split: sum.splits prod.splits dest: s m)
qed

lemma lastValue_distinct:
  assumes "distinct (map fst fs)" "distinct (map fst fs')" "set fs = set fs'"
  shows "lastValue fs k = lastValue fs' k"
proof -
  have "map_of (rev fs) = map_of (rev fs')"
    by (rule map_of_inject_set[THEN iffD2]) (use assms in \<open>simp_all add: rev_map[symmetric]\<close>)
  then show ?thesis by (simp add: mapGet_lastValue[symmetric] mapGet_def)
qed

lemma lastValue_None_iff: "lastValue fs k = None \<longleftrightarrow> k \<notin> fst ` set fs"
  using lastValue_Some_iff[of fs k] by (cases "lastValue fs k") auto

text \<open>
  Claim C5, amended. \<open>parseAuthorization\<close> succeeds exactly on the headers that split, at
  the first space and then at commas, into fields that each hold \<open>=\<close>, that carry at least
  the three names \<open>Credential\<close>, \<open>SignedHeaders\<close> and \<open>Signature\<close> in any order, and
  whose \<open>Signature\<close> is a non-empty string of lowercase hexadecimal digits of even length;
  of a repeated name the last field is read, and other fields are ignored. It throws when
  the header does not split so, when one of the three names is missing, and when the
  signature is malformed. As the claim words it (below, the counterexample) it fails: a
  header with an extra field and a repeated field is accepted.
\<close>

theorem parseAuthorization_fields:
  "(parseAuthorization h = Inr r \<longleftrightarrow>
      (\<exists>alg fs c s sig. headerFields h = Inr (alg, fs)
         \<and> lastValue fs (str ''Credential'') = Some c
         \<and> lastValue fs (str ''SignedHeaders'') = Some s
         \<and> lastValue fs (str ''Signature'') = Some sig \<and> validSignature sig
         \<and> r = \<lparr> algorithm = alg, credential = c, signedHeaders = s,
                  signatureBuf = bufferFromHex sig \<rparr>))
   \<and> (\<forall>e. headerFields h = Inl e \<longrightarrow> parseAuthorization h = Inl InvalidAuthorizationStructure)
   \<and> (\<forall>alg fs. headerFields h = Inr (alg, fs)
         \<and> \<not> {str ''Credential'', str ''SignedHeaders'', str ''Signature''} \<subseteq> fst ` set fs \<longrightarrow>
         parseAuthorization h = Inl MissingFields)
   \<and> (\<forall>alg fs sig. headerFields h = Inr (alg, fs)
         \<and> {str ''Credential'', str ''SignedHeaders'', str ''Signature''} \<subseteq> fst ` set fs
         \<and> lastValue fs (str ''Signature'') = Some sig \<and> \<not> validSignature sig \<longrightarrow>
         parseAuthorization h = Inl InvalidSignatureFormat)
   \<and> (\<forall>alg fs. wfAlgorithm alg \<and> fs \<noteq> [] \<and> (\<forall>f \<in> set fs. wfField f) \<longrightarrow>
         headerFields (renderHeader alg fs) = Inr (alg, fs))
   \<and> (\<forall>alg fs fs'. wfAlgorithm alg \<and> fs \<noteq> [] \<and> (\<forall>f \<in> set fs. wfField f)
         \<and> distinct (map fst fs) \<and> distinct (map fst fs') \<and> set fs = set fs' \<longrightarrow>
         parseAuthorization (renderHeader alg fs') = parseAuthorization (renderHeader alg fs))"
proof -
  note p = parseAuthorization_headerFields[of h]
  have 1: "parseAuthorization h = Inr r \<longleftrightarrow>
      (\<exists>alg fs c s sig. headerFields h = Inr (alg, fs)
         \<and> lastValue fs (str ''Credential'') = Some c
         \<and> lastValue fs (str ''SignedHeaders'') = Some s
         \<and> lastValue fs (str ''Signature'') = Some sig \<and> validSignature sig
         \<and> r = \<lparr> algorithm = alg, credential = c, signedHeaders = s,
                  signatureBuf = bufferFromHex sig \<rparr>)"
    unfolding p by (auto split: sum.splits prod.splits option.splits if_splits)
  have 2: "\<forall>e. headerFields h = Inl e \<longrightarrow> parseAuthorization h = Inl InvalidAuthorizationStructure"
    unfolding p using headerFields_error[of h] by (auto split: sum.splits)
  have 3: "\<forall>alg fs. headerFields h = Inr (alg, fs)
         \<and> \<not> {str ''Credential'', str ''SignedHeaders'', str ''Signature''} \<subseteq> fst ` set fs \<longrightarrow>
         parseAuthorization h = Inl MissingFields"
  proof (intro allI impI)
    fix alg fs
    assume a: "headerFields h = Inr (alg, fs)
         \<and> \<not> {str ''Credential'', str ''SignedHeaders'', str ''Signature''} \<subseteq> fst ` set fs"
    then have "lastValue fs (str ''Credential'') = None \<or> lastValue fs (str ''SignedHeaders'') = None
        \<or> lastValue fs (str ''Signature'') = None"
      unfolding lastValue_None_iff by simp
    with a show "parseAuthorization h = Inl MissingFields"
      unfolding p by (auto split: option.splits)
  qed
  have 4: "\<forall>alg fs sig. headerFields h = Inr (alg, fs)
         \<and> {str ''Credential'', str ''SignedHeaders'', str ''Signature''} \<subseteq> fst ` set fs
         \<and> lastValue fs (str ''Signature'') = Some sig \<and> \<not> validSignature sig \<longrightarrow>
         parseAuthorization h = Inl InvalidSignatureFormat"
  proof (intro allI impI)
    fix alg fs sig
    assume a: "headerFields h = Inr (alg, fs)
         \<and> {str ''Credential'', str ''SignedHeaders'', str ''Signature''} \<subseteq> fst ` set fs
         \<and> lastValue fs (str ''Signature'') = Some sig \<and> \<not> validSignature sig"
    then have "lastValue fs (str ''Credential'') \<noteq> None" "lastValue fs (str ''SignedHeaders'') \<noteq> None"
      unfolding lastValue_None_iff by simp_all
    then obtain c s where "lastValue fs (str ''Credential'') = Some c"
      "lastValue fs (str ''SignedHeaders'') = Some s" by auto
    with a show "parseAuthorization h = Inl InvalidSignatureFormat"
      unfolding p by simp
  qed
  have 5: "\<forall>alg fs. wfAlgorithm alg \<and> fs \<noteq> [] \<and> (\<forall>f \<in> set fs. wfField f) \<longrightarrow>
         headerFields (renderHeader alg fs) = Inr (alg, fs)"
    using headerFields_render by blast
  have 6: "\<forall>alg fs fs'. wfAlgorithm alg \<and> fs \<noteq> [] \<and> (\<forall>f \<in> set fs. wfField f)
         \<and> distinct (map fst fs) \<and> distinct (map fst fs') \<and> set fs = set fs' \<longrightarrow>
         parseAuthorization (renderHeader alg fs') = parseAuthorization (renderHeader alg fs)"
  proof (intro allI impI)
    fix alg fs fs'
    assume a: "wfAlgorithm alg \<and> fs \<noteq> [] \<and> (\<forall>f \<in> set fs. wfField f)
         \<and> distinct (map fst fs) \<and> distinct (map fst fs') \<and> set fs = set fs'"
    then have n: "fs' \<noteq> []" and w: "\<forall>f \<in> set fs'. wfField f" by auto
    have h1: "headerFields (renderHeader alg fs) = Inr (alg, fs)"
      using a headerFields_render by blast
    have h2: "headerFields (renderHeader alg fs') = Inr (alg, fs')"
      using a n w headerFields_render by blast
    have l: "lastValue fs' k = lastValue fs k" for k
      using a lastValue_distinct[of fs' fs k] by simp
    show "parseAuthorization (renderHeader alg fs') = parseAuthorization (renderHeader alg fs)"
      by (simp only: parseAuthorization_headerFields h1 h2 l sum.case prod.case)
  qed
  show ?thesis by (intro conjI) (rule 1 2 3 4 5 6)+
qed

lemma example_wf:
  "wfAlgorithm (str ''AWS4-HMAC-SHA256'')"
  "wfField (str ''Credential'', str ''c'')" "wfField (str ''Credential'', str ''d'')"
  "wfField (str ''SignedHeaders'', str ''h'')" "wfField (str ''Signature'', str ''ab'')"
  "wfField (str ''Signature'', str ''xyz'')" "wfField (str ''Extra'', str ''1'')"
  by (simp_all add: wfAlgorithm_def wfField_def startsWithSpace_def endsWithSpace_def isSpace_def str_def)

lemma example_sig:
  "validSignature (str ''ab'')" "bufferFromHex (str ''ab'') = [0xAB]" "\<not> validSignature (str ''xyz'')"
  by (simp_all add: validSignature_def isHexDigit_def hexValue_def str_def)

lemma example_names:
  "str ''Extra'' \<noteq> str ''Credential''" "str ''Extra'' \<noteq> str ''SignedHeaders''"
  "str ''Extra'' \<noteq> str ''Signature''"
  by (simp_all add: str_def)

theorem parseAuthorization_fields_counterexample:
  "parseAuthorization
     (str ''AWS4-HMAC-SHA256 Credential=c, SignedHeaders=h, Signature=ab, Extra=1, Credential=d'')
   = Inr \<lparr> algorithm = str ''AWS4-HMAC-SHA256'', credential = str ''d'', signedHeaders = str ''h'',
            signatureBuf = [0xAB] \<rparr>"
proof -
  let ?fs = "[(str ''Credential'', str ''c''), (str ''SignedHeaders'', str ''h''),
              (str ''Signature'', str ''ab''), (str ''Extra'', str ''1''), (str ''Credential'', str ''d'')]"
  have r: "str ''AWS4-HMAC-SHA256 Credential=c, SignedHeaders=h, Signature=ab, Extra=1, Credential=d''
     = renderHeader (str ''AWS4-HMAC-SHA256'') ?fs"
    by (simp add: renderHeader_def renderField_def str_def)
  have h: "headerFields (renderHeader (str ''AWS4-HMAC-SHA256'') ?fs) = Inr (str ''AWS4-HMAC-SHA256'', ?fs)"
    by (rule headerFields_render) (simp_all add: example_wf)
  have l: "lastValue ?fs (str ''Signature'') = Some (str ''ab'')"
    "lastValue ?fs (str ''Credential'') = Some (str ''d'')"
    "lastValue ?fs (str ''SignedHeaders'') = Some (str ''h'')"
    using names_distinct example_names by (simp_all add: lastValue_def)
  show ?thesis unfolding r
    by (simp add: parseAuthorization_headerFields h l example_sig)
qed

theorem parseAuthorization_fields_witness:
  "parseAuthorization (renderHeader (str ''AWS4-HMAC-SHA256'')
       [(str ''SignedHeaders'', str ''h''), (str ''Signature'', str ''ab''), (str ''Credential'', str ''c'')])
     = Inr \<lparr> algorithm = str ''AWS4-HMAC-SHA256'', credential = str ''c'', signedHeaders = str ''h'',
              signatureBuf = [0xAB] \<rparr>
   \<and> parseAuthorization (renderHeader (str ''AWS4-HMAC-SHA256'')
       [(str ''Signature'', str ''ab''), (str ''Credential'', str ''c'')]) = Inl MissingFields
   \<and> parseAuthorization (renderHeader (str ''AWS4-HMAC-SHA256'')
       [(str ''SignedHeaders'', str ''h''), (str ''Signature'', str ''xyz''), (str ''Credential'', str ''c'')])
     = Inl InvalidSignatureFormat
   \<and> parseAuthorization (str ''AWS4-HMAC-SHA256'') = Inl InvalidAuthorizationStructure"
proof -
  let ?A = "str ''AWS4-HMAC-SHA256''"
  let ?f1 = "[(str ''SignedHeaders'', str ''h''), (str ''Signature'', str ''ab''), (str ''Credential'', str ''c'')]"
  let ?f2 = "[(str ''Signature'', str ''ab''), (str ''Credential'', str ''c'')]"
  let ?f3 = "[(str ''SignedHeaders'', str ''h''), (str ''Signature'', str ''xyz''), (str ''Credential'', str ''c'')]"
  note t1 = parseAuthorization_fields[of "renderHeader ?A ?f1"]
  note t2 = parseAuthorization_fields[of "renderHeader ?A ?f2"]
  note t3 = parseAuthorization_fields[of "renderHeader ?A ?f3"]
  note t4 = parseAuthorization_fields[of ?A]
  have h1: "headerFields (renderHeader ?A ?f1) = Inr (?A, ?f1)"
    using t1[THEN conjunct2, THEN conjunct2, THEN conjunct2, THEN conjunct2, THEN conjunct1] example_wf
    by simp
  have h2: "headerFields (renderHeader ?A ?f2) = Inr (?A, ?f2)"
    using t1[THEN conjunct2, THEN conjunct2, THEN conjunct2, THEN conjunct2, THEN conjunct1] example_wf
    by simp
  have h3: "headerFields (renderHeader ?A ?f3) = Inr (?A, ?f3)"
    using t1[THEN conjunct2, THEN conjunct2, THEN conjunct2, THEN conjunct2, THEN conjunct1] example_wf
    by simp
  have l1: "lastValue ?f1 (str ''Signature'') = Some (str ''ab'')"
    "lastValue ?f1 (str ''Credential'') = Some (str ''c'')"
    "lastValue ?f1 (str ''SignedHeaders'') = Some (str ''h'')"
    using names_distinct by (simp_all add: lastValue_def)
  have 1: "parseAuthorization (renderHeader ?A ?f1)
     = Inr \<lparr> algorithm = ?A, credential = str ''c'', signedHeaders = str ''h'', signatureBuf = [0xAB] \<rparr>"
    using t1[THEN conjunct1] h1 l1 example_sig by simp
  have "\<not> {str ''Credential'', str ''SignedHeaders'', str ''Signature''} \<subseteq> fst ` set ?f2"
    using names_distinct by simp
  then have 2: "parseAuthorization (renderHeader ?A ?f2) = Inl MissingFields"
    using t2[THEN conjunct2, THEN conjunct2, THEN conjunct1] h2 by blast
  have "{str ''Credential'', str ''SignedHeaders'', str ''Signature''} \<subseteq> fst ` set ?f3"
    "lastValue ?f3 (str ''Signature'') = Some (str ''xyz'')"
    using names_distinct by (simp_all add: lastValue_def)
  then have 3: "parseAuthorization (renderHeader ?A ?f3) = Inl InvalidSignatureFormat"
    using t3[THEN conjunct2, THEN conjunct2, THEN conjunct2, THEN conjunct1] h3 example_sig(3) by blast
  have "headerFields ?A = Inl InvalidAuthorizationStructure"
    by (simp add: headerFields_def split1_def trimLeft_def isSpace_def str_def)
  then have 4: "parseAuthorization ?A = Inl InvalidAuthorizationStructure"
    using t4[THEN conjunct2, THEN conjunct1] by blast
  from 1 2 3 4 show ?thesis by blast
qed

section \<open>Determinism of the signature\<close>

text \<open>
  Claim C8. Of its environment \<open>signRequestRaw\<close> reads the clock only, and only when no
  timestamp is given: for the same credentials, HTTP method, path, query, headers, body and
  options, with an explicit \<open>X-Amz-Date\<close>, two invocations return the same result (the same
  \<open>Authorization\<close> value, or the same error) whatever the time of each.
\<close>

theorem signRequestRaw_deterministic:
  assumes "timestampGiven E opts q hdrs"
  shows "signRequestRaw E K now1 creds meth path q hdrs bdy opts
       = signRequestRaw E K now2 creds meth path q hdrs bdy opts"
proof (cases "query opts")
  case True
  with assms have "truthyStr (qGet q (str ''X-Amz-Date''))" by (simp add: timestampGiven_def)
  then show ?thesis unfolding signRequestRaw_def Let_def using True by simp
next
  case False
  with assms have "truthyStr (snd (getHeader E (Some hdrs) (str ''x-amz-date'')))"
    by (simp add: timestampGiven_def)
  then show ?thesis unfolding signRequestRaw_def Let_def using False by simp
qed

lemma example_headers:
  "getHeader stubRuntime (Some [(str ''Host'', HString (str ''example.amazonaws.com'')),
        (str ''X-Amz-Date'', HString (str ''20200101T000000Z''))]) (str ''x-amz-date'')
     = (str ''X-Amz-Date'', Some (str ''20200101T000000Z''))"
  "getHeader stubRuntime (Some [(str ''Host'', HString (str ''example.amazonaws.com'')),
        (str ''X-Amz-Date'', HString (str ''20200101T000000Z''))]) (str ''authorization'')
     = (str ''authorization'', None)"
  by (simp_all add: getHeader_def stubRuntime_def asciiLower_def str_def)

lemma example_cheaders:
  "getCanonicalHeaders stubRuntime [(str ''Host'', HString (str ''example.amazonaws.com'')),
        (str ''X-Amz-Date'', HString (str ''20200101T000000Z''))]
     = Inr (str ''host:example.amazonaws.com\<newline>x-amz-date:20200101T000000Z\<newline>'', str ''host;x-amz-date'')"
  by (simp add: getCanonicalHeaders_def stubRuntime_def asciiLower_def trimHeader_def trim_def
      isSpace_def str_def)

theorem signRequestRaw_deterministic_witness:
  "timestampGiven stubRuntime defaultOptions []
      [(str ''Host'', HString (str ''example.amazonaws.com'')),
       (str ''X-Amz-Date'', HString (str ''20200101T000000Z''))]
   \<and> signRequestRaw stubRuntime stubCrypto (str ''2020-01-01T00:00:00.000Z'')
        \<lparr> accessKey = str ''AKID'', secretKey = str ''secret'', regionName = str ''us-east-1'',
          serviceName = str ''s3'' \<rparr>
        (str ''GET'') (str ''/'') []
        [(str ''Host'', HString (str ''example.amazonaws.com'')),
         (str ''X-Amz-Date'', HString (str ''20200101T000000Z''))] None defaultOptions
     = signRequestRaw stubRuntime stubCrypto (str ''2021-06-01T12:30:00.000Z'')
        \<lparr> accessKey = str ''AKID'', secretKey = str ''secret'', regionName = str ''us-east-1'',
          serviceName = str ''s3'' \<rparr>
        (str ''GET'') (str ''/'') []
        [(str ''Host'', HString (str ''example.amazonaws.com'')),
         (str ''X-Amz-Date'', HString (str ''20200101T000000Z''))] None defaultOptions
   \<and> signRequestRaw stubRuntime stubCrypto (str ''2021-06-01T12:30:00.000Z'')
        \<lparr> accessKey = str ''AKID'', secretKey = str ''secret'', regionName = str ''us-east-1'',
          serviceName = str ''s3'' \<rparr>
        (str ''GET'') (str ''/'') []
        [(str ''Host'', HString (str ''example.amazonaws.com'')),
         (str ''X-Amz-Date'', HString (str ''20200101T000000Z''))] None defaultOptions
     = Inr [(str ''authorization'',
        str ''AWS4-HMAC-SHA256 Credential=AKID/20200101/us-east-1/s3/aws4_request, SignedHeaders=host;x-amz-date, Signature=''
          @ concat (replicate 32 (str ''00'')))]"
proof -
  let ?h = "[(str ''Host'', HString (str ''example.amazonaws.com'')),
       (str ''X-Amz-Date'', HString (str ''20200101T000000Z''))]"
  have g: "timestampGiven stubRuntime defaultOptions [] ?h"
    by (simp add: timestampGiven_def defaultOptions_def example_headers) (simp add: str_def)

  have s: "scope (getSigningData stubCrypto (str ''20200101T000000Z'') (str ''secret'')
       (str ''us-east-1'') (str ''s3'')) = str ''20200101/us-east-1/s3/aws4_request''"
    by (simp add: getSigningData_def Let_def str_def)
  have ne: "str ''20200101T000000Z'' \<noteq> []" by (simp add: str_def)
  have d: "objDelete (objSpread ?h []) (str ''authorization'') = ?h"
    by (simp add: objDelete_def objSpread_def str_def)
  have e: "signRequestRaw stubRuntime stubCrypto (str ''2021-06-01T12:30:00.000Z'')
        \<lparr> accessKey = str ''AKID'', secretKey = str ''secret'', regionName = str ''us-east-1'',
          serviceName = str ''s3'' \<rparr>
        (str ''GET'') (str ''/'') [] ?h None defaultOptions
     = Inr [(str ''authorization'',
        str ''AWS4-HMAC-SHA256 Credential=AKID/20200101/us-east-1/s3/aws4_request, SignedHeaders=host;x-amz-date, Signature=''
          @ concat (replicate 32 (str ''00'')))]"
    unfolding signRequestRaw_def Let_def
    apply (simp add: defaultOptions_def example_headers getSigning_def s d example_cheaders ne)
    apply (simp add: buildAuthorization_def MAIN_ALGORITHM_def signDigest_def signString_def
        stubCrypto_def bufferToHex_def hexDigit_def)
    apply (simp add: str_def)
    done
  note t = signRequestRaw_deterministic[OF g, where K = stubCrypto
      and ?now1.0 = "str ''2020-01-01T00:00:00.000Z''" and ?now2.0 = "str ''2021-06-01T12:30:00.000Z''"
      and creds = "\<lparr> accessKey = str ''AKID'', secretKey = str ''secret'', regionName = str ''us-east-1'',
          serviceName = str ''s3'' \<rparr>" and meth = "str ''GET''" and path = "str ''/''" and bdy = None]
  from g t e show ?thesis by (intro conjI) assumption+
qed

section \<open>What signing changes of the caller's request\<close>

lemma sameObjects_refl: "sameObjects H H"
  by (simp add: sameObjects_def)

lemma sameObjects_trans: "sameObjects H H1 \<Longrightarrow> sameObjects H1 H2 \<Longrightarrow> sameObjects H H2"
  by (auto simp: sameObjects_def)

lemma sameObjects_alloc:
  "sameObjects H (snd (allocParams H v))" "sameObjects H (snd (allocHeaders H w))"
  "sameObjects H (snd (allocURL H x))"
  "nextRef H \<le> fst (allocParams H v)" "nextRef H \<le> fst (allocHeaders H w)" "nextRef H \<le> fst (allocURL H x)"
  "fst (allocParams H v) < nextRef (snd (allocParams H v))"
  "fst (allocURL H x) < nextRef (snd (allocURL H x))"
  by (simp_all add: sameObjects_def allocParams_def allocHeaders_def allocURL_def)

lemma resolveURL_frame:
  assumes "resolveURL E H uf = Inr (u, H1)"
  shows "sameObjects H H1" "uf = UrlObject a \<Longrightarrow> u = a \<and> H1 = H"
    "(\<forall>a. uf \<noteq> UrlObject a) \<Longrightarrow> nextRef H \<le> u" "uf = UrlObject u \<or> nextRef H \<le> u"
proof -
  show "sameObjects H H1"
    using assms
    by (auto simp: resolveURL_def sameObjects_def allocParams_def allocURL_def
        split: urlField.splits sum.splits prod.splits)
  show "uf = UrlObject a \<Longrightarrow> u = a \<and> H1 = H"
    using assms by (auto simp: resolveURL_def)
  show "(\<forall>a. uf \<noteq> UrlObject a) \<Longrightarrow> nextRef H \<le> u"
    using assms
    by (auto simp: resolveURL_def allocParams_def allocURL_def
        split: urlField.splits sum.splits prod.splits)
  show "uf = UrlObject u \<or> nextRef H \<le> u"
    using assms
    by (auto simp: resolveURL_def allocParams_def allocURL_def
        split: urlField.splits sum.splits prod.splits)
qed

lemma resolveCredentials_frame:
  assumes "resolveCredentials E H u c = Inr (creds, H2)"
  shows "nextRef H2 = nextRef H" "headerObjs H2 = headerObjs H" "paramObjs H2 = paramObjs H"
    "a \<noteq> u \<Longrightarrow> urls H2 a = urls H a"
    "urls H2 u = urls H u \<or> (\<not> truthyStr (host (urls H u)) \<and> urls H2 u = (urls H u) \<lparr> host := host (urls H2 u) \<rparr>)"
  using assms
  by (auto simp: resolveCredentials_def split: if_splits sum.splits)

lemma signRequest_cases:
  assumes "\<not> set_opt opts" "signRequest E K now H c req opts = (r, req', H')"
  shows "req' = req"
    and "(\<exists>e. resolveURL E H (url req) = Inl e \<and> H' = H)
       \<or> (\<exists>u H1 e. resolveURL E H (url req) = Inr (u, H1) \<and> resolveCredentials E H1 u c = Inl e \<and> H' = H1)
       \<or> (\<exists>u H1 creds H2. resolveURL E H (url req) = Inr (u, H1)
             \<and> resolveCredentials E H1 u c = Inr (creds, H2)
             \<and> H' = snd (case searchParams (urls H2 u) of Some p \<Rightarrow> (p, H2) | None \<Rightarrow> allocParams H2 []))"
  using assms
  by (auto simp: signRequest_def Let_def split: sum.splits prod.splits)

lemma signRequest_frame:
  assumes s: "\<not> set_opt opts" and e: "signRequest E K now H c req opts = (r, req', H')"
  shows "req' = req" "onlyHostPopulated H H' (url req)"
proof -
  show "req' = req" by (rule signRequest_cases(1)[OF s e])
  from signRequest_cases(2)[OF s e]
  consider (a) "H' = H"
    | (b) u H1 where "resolveURL E H (url req) = Inr (u, H1)" "H' = H1"
    | (c) u H1 creds H2 where "resolveURL E H (url req) = Inr (u, H1)"
        "resolveCredentials E H1 u c = Inr (creds, H2)"
        "H' = snd (case searchParams (urls H2 u) of Some p \<Rightarrow> (p, H2) | None \<Rightarrow> allocParams H2 [])"
    by blast
  then show "onlyHostPopulated H H' (url req)"
  proof cases
    case a
    then show ?thesis by (simp add: onlyHostPopulated_def)
  next
    case b
    then show ?thesis using resolveURL_frame(1)[OF b(1)]
      by (simp add: onlyHostPopulated_def sameObjects_def)
  next
    case c
    note f1 = resolveURL_frame[OF c(1)]
    note f2 = resolveCredentials_frame[OF c(2)]
    have f3: "sameObjects H2 H'"
      unfolding c(3) using sameObjects_alloc(1)[of H2 "[]"]
      by (simp add: sameObjects_refl split: option.splits)
    show ?thesis unfolding onlyHostPopulated_def
    proof (intro conjI allI impI)
      show "nextRef H \<le> nextRef H'" using f1(1) f2(1) f3 by (simp add: sameObjects_def)
    next
      fix a assume a: "a < nextRef H"
      then have a2: "a < nextRef H2" using f1(1) f2(1) by (simp add: sameObjects_def)
      show "headerObjs H' a = headerObjs H a" using a a2 f1(1) f2(2) f3 by (simp add: sameObjects_def)
      show "paramObjs H' a = paramObjs H a" using a a2 f1(1) f2(3) f3 by (simp add: sameObjects_def)
      have u3: "urls H' a = urls H2 a" using a2 f3 by (simp add: sameObjects_def)
      have u1: "urls H1 a = urls H a" using a f1(1) by (simp add: sameObjects_def)
      show "urls H' a = urls H a
            \<or> (url req = UrlObject a \<and> \<not> truthyStr (host (urls H a))
                \<and> urls H' a = (urls H a) \<lparr> host := host (urls H' a) \<rparr>)"
      proof (cases "a = u")
        case False
        then show ?thesis using f2(4)[of a] u3 u1 by simp
      next
        case True
        with a f1(4) have "url req = UrlObject a" by auto
        then show ?thesis using f2(5) u3 u1 True by auto
      qed
    qed
  qed
qed

lemma resolveURL_string:
  assumes "resolveURL E H (UrlString s) = Inr (u, H1)"
  shows "nextRef H \<le> u" "u < nextRef H1"
    "\<exists>p. searchParams (urls H1 u) = Some p \<and> nextRef H \<le> p \<and> p < nextRef H1"
  using assms
  by (auto simp: resolveURL_def allocParams_def allocURL_def split: sum.splits)

lemma patchURL_copy:
  assumes "patchURL H (UrlObject u0) extra u0 False = (u, H2)"
  shows "sameObjects H H2" "nextRef H \<le> u"
  using assms
  by (auto simp: patchURL_def Let_def allocParams_def allocURL_def sameObjects_def
      split: option.splits prod.splits)

lemma patchURL_fresh:
  assumes "patchURL H1 (UrlString s) extra u0 False = (u, H2)"
    and "n \<le> u0" "u0 < nextRef H1" "searchParams (urls H1 u0) = Some p" "n \<le> p" "p < nextRef H1"
  shows "u = u0" "nextRef H1 \<le> nextRef H2"
    "a < n \<Longrightarrow> headerObjs H2 a = headerObjs H1 a \<and> paramObjs H2 a = paramObjs H1 a \<and> urls H2 a = urls H1 a"
  using assms
  by (auto simp: patchURL_def Let_def allocParams_def split: option.splits prod.splits)

lemma s3Prepare_frame:
  assumes "\<not> set_s3 opts" "s3Prepare H1 u0 req opts = (extra, u, hdrs, H2)"
  shows "hdrs = headers req"
    "(u, H2) = (u0, H1) \<or> (u, H2) = patchURL H1 (url req) [(str ''X-Amz-Expires'', EXPIRES_MAX)] u0 False"
  using assms by (auto simp: s3Prepare_def split: if_splits prod.splits)

lemma s3Finish_frame:
  assumes "\<not> set_s3 opts" "s3Finish E H3 u req opts = (req2, H4)"
  shows "req2 = req"
    "H4 = H3 \<or> (\<exists>a. url req = UrlObject a \<and> \<not> truthyStr (host (urls H3 a))
        \<and> H4 = H3 \<lparr> urls := (urls H3)(a := (urls H3 a) \<lparr> host := host (urls H3 u) \<rparr>) \<rparr>)"
  using assms by (auto simp: s3Finish_def split: urlField.splits if_splits)

lemma signS3Request_cases:
  assumes s: "\<not> set_s3 opts" and e: "signS3Request E K now H c req opts = (r, req', H')"
  obtains (fail) "req' = req" "H' = H"
    | (run) u0 H1 u H2 c' and copy :: s3request and r' copy' H3 where "req' = req"
        "resolveURL E H (url req) = Inr (u0, H1)"
        "(u, H2) = (u0, H1) \<or> (u, H2) = patchURL H1 (url req) [(str ''X-Amz-Expires'', EXPIRES_MAX)] u0 False"
        "url copy = UrlObject u"
        "signRequest E K now H2 c' copy (withS3Options opts) = (r', copy', H3)"
        "H' = H3 \<or> (\<exists>a. url req = UrlObject a \<and> \<not> truthyStr (host (urls H3 a))
                    \<and> H' = H3 \<lparr> urls := (urls H3)(a := (urls H3 a) \<lparr> host := host (urls H3 u) \<rparr>) \<rparr>)"
proof (cases "resolveURL E H (url req)")
  case (Inl e')
  then have "req' = req" "H' = H" using e by (simp_all add: signS3Request_def)
  then show ?thesis by (rule fail)
next
  case (Inr p)
  obtain u0 H1 where p: "p = (u0, H1)" by (cases p)
  obtain extra u hdrs H2 where pr: "s3Prepare H1 u0 req opts = (extra, u, hdrs, H2)"
    by (cases "s3Prepare H1 u0 req opts") auto
  note f = s3Prepare_frame[OF s pr]
  have pr': "s3Prepare H1 u0 req opts = (extra, u, headers req, H2)" using pr f(1) by simp
  have r1: "req \<lparr> headers := headers req \<rparr> = req" by (cases req) simp
  define copy where "copy = req \<lparr> url := UrlObject u,
      body := (if (case unsigned req of Some b \<Rightarrow> b | None \<Rightarrow> query_s3 opts)
               then Some (BodyHash PAYLOAD_UNSIGNED None) else body req) \<rparr>"
  define c' where "c' = (if \<not> truthyStr (host (urls H2 u))
                      then c \<lparr> serviceName' := (case serviceName' c of Some s \<Rightarrow> Some s | None \<Rightarrow> Some (str ''s3'')) \<rparr>
                      else c)"
  obtain r' copy' H3 where sr: "signRequest E K now H2 c' copy (withS3Options opts) = (r', copy', H3)"
    by (cases "signRequest E K now H2 c' copy (withS3Options opts)")
  have cu: "url copy = UrlObject u" by (simp add: copy_def)
  obtain req2 H4 where fi: "s3Finish E H3 u req opts = (req2, H4)"
    by (cases "s3Finish E H3 u req opts")
  note g = s3Finish_frame[OF s fi]
  have b: "body (req \<lparr> headers := headers req \<rparr>) = body req" by simp
  note e' = e[unfolded signS3Request_def Inr p sum.case prod.case pr' Let_def r1 b,
      folded copy_def c'_def, unfolded sr prod.case fi]
  have res: "req' = req \<and> (H' = H3 \<or> H' = H4)"
    using e' g(1) by (cases r') auto
  then have 1: "req' = req" by simp
  have 2: "H' = H3 \<or> (\<exists>a. url req = UrlObject a \<and> \<not> truthyStr (host (urls H3 a))
                  \<and> H' = H3 \<lparr> urls := (urls H3)(a := (urls H3 a) \<lparr> host := host (urls H3 u) \<rparr>) \<rparr>)"
    using res g(2) by auto
  show ?thesis
    by (rule run[OF 1 Inr[unfolded p] f(2) cu sr 2])
qed

lemma s3_patch_frame:
  assumes r: "resolveURL E H uf = Inr (u0, H1)"
    and p: "(u, H2) = (u0, H1) \<or> (u, H2) = patchURL H1 uf extra u0 False"
  shows "sameObjects H H2" "uf = UrlObject u \<or> nextRef H \<le> u"
proof -
  note f1 = resolveURL_frame[OF r]
  have "sameObjects H H2 \<and> (uf = UrlObject u \<or> nextRef H \<le> u)"
  proof (cases "(u, H2) = (u0, H1)")
    case True
    then show ?thesis using f1(1,4) by auto
  next
    case False
    with p have pu: "patchURL H1 uf extra u0 False = (u, H2)" by (auto dest: sym)
    show ?thesis
    proof (cases uf)
      case (UrlObject a)
      with f1(2)[of a] have "u0 = a" "H1 = H" by simp_all
      with pu UrlObject have "patchURL H (UrlObject a) extra a False = (u, H2)" by simp
      from patchURL_copy[OF this] show ?thesis by simp
    next
      case (UrlString s)
      note g = resolveURL_string[OF r[unfolded UrlString]]
      from g(3) obtain q where q: "searchParams (urls H1 u0) = Some q" "nextRef H \<le> q" "q < nextRef H1"
        by blast
      note h = patchURL_fresh[OF pu[unfolded UrlString] g(1,2) q]
      have "sameObjects H H2"
        unfolding sameObjects_def
      proof (intro conjI allI impI)
        show "nextRef H \<le> nextRef H2" using f1(1) h(2) by (simp add: sameObjects_def)
      next
        fix a assume a: "a < nextRef H"
        with f1(1) h(3)[OF a]
        show "headerObjs H2 a = headerObjs H a" "paramObjs H2 a = paramObjs H a" "urls H2 a = urls H a"
          by (simp_all add: sameObjects_def)
      qed
      then show ?thesis using h(1) g(1) by simp
    qed
  qed
  then show "sameObjects H H2" "uf = UrlObject u \<or> nextRef H \<le> u" by simp_all
qed

lemma signS3Request_frame:
  assumes s: "\<not> set_s3 opts" and e: "signS3Request E K now H c req opts = (r, req', H')"
  shows "req' = req" "onlyHostPopulated H H' (url req)"
proof -
  have "req' = req \<and> onlyHostPopulated H H' (url req)"
  using s e
  proof (cases rule: signS3Request_cases)
    case fail
    then show ?thesis by (simp add: onlyHostPopulated_def)
  next
    case (run u0 H1 u H2 c' copy r' copy' H3)
    note p = s3_patch_frame[OF run(2,3)]
    have s': "\<not> set_opt (withS3Options opts)" using s by (simp add: withS3Options_def)
    from signRequest_frame(2)[OF s' run(5)]
    have o: "onlyHostPopulated H2 H3 (UrlObject u)" by (simp add: run(4))
    have n: "nextRef H \<le> nextRef H2" "nextRef H2 \<le> nextRef H3"
      using p(1) o by (simp_all add: sameObjects_def onlyHostPopulated_def)
    have n': "nextRef H3 \<le> nextRef H'" using run(6) by auto
    have "onlyHostPopulated H H' (url req)"
      unfolding onlyHostPopulated_def
    proof (intro conjI allI impI)
      show "nextRef H \<le> nextRef H'" using n n' by simp
    next
      fix a assume a: "a < nextRef H"
      then have a2: "a < nextRef H2" using n by simp
      have h3: "headerObjs H3 a = headerObjs H a" "paramObjs H3 a = paramObjs H a"
        using a a2 p(1) o by (simp_all add: sameObjects_def onlyHostPopulated_def)
      show "headerObjs H' a = headerObjs H a" using run(6) h3 by auto
      show "paramObjs H' a = paramObjs H a" using run(6) h3 by auto
      have u2: "urls H2 a = urls H a" using a p(1) by (simp add: sameObjects_def)
      have u3: "urls H3 a = urls H a
            \<or> (u = a \<and> \<not> truthyStr (host (urls H a))
                \<and> urls H3 a = (urls H a) \<lparr> host := host (urls H3 a) \<rparr>)"
        using o a2 u2 by (auto simp: onlyHostPopulated_def)
      have ua: "u = a \<Longrightarrow> url req = UrlObject a" using p(2) a by auto
      from run(6) show "urls H' a = urls H a
            \<or> (url req = UrlObject a \<and> \<not> truthyStr (host (urls H a))
                \<and> urls H' a = (urls H a) \<lparr> host := host (urls H' a) \<rparr>)"
      proof
        assume "H' = H3"
        then show ?thesis using u3 ua by auto
      next
        assume "\<exists>b. url req = UrlObject b \<and> \<not> truthyStr (host (urls H3 b))
                    \<and> H' = H3 \<lparr> urls := (urls H3)(b := (urls H3 b) \<lparr> host := host (urls H3 u) \<rparr>) \<rparr>"
        then obtain b where b: "url req = UrlObject b" "\<not> truthyStr (host (urls H3 b))"
          "H' = H3 \<lparr> urls := (urls H3)(b := (urls H3 b) \<lparr> host := host (urls H3 u) \<rparr>) \<rparr>" by blast
        show ?thesis
        proof (cases "a = b")
          case False
          then have "urls H' a = urls H3 a" using b(3) by simp
          moreover have "u \<noteq> a" using ua b(1) False by auto
          ultimately show ?thesis using u3 by simp
        next
          case True
          have "urls H' a = (urls H3 a) \<lparr> host := host (urls H3 u) \<rparr>" using b(3) True by simp
          moreover have "\<not> truthyStr (host (urls H a))" using u3 b(2) True by auto
          ultimately show ?thesis using u3 b(1) True by auto
        qed
      qed
    qed
    with run(1) show ?thesis by simp
  qed
  then show "req' = req" "onlyHostPopulated H H' (url req)" by simp_all
qed

text \<open>
  Claim C6, amended. When the \<open>set\<close> option is not enabled, \<open>signRequest\<close> and
  \<open>signS3Request\<close> leave the caller's request object, its headers and its query parameters
  as they were; of its url object they change nothing but \<open>host\<close>, and that only where it
  was missing. As the claim words it (below, the counterexample) it fails: a url object
  without a host is given one, whatever the \<open>set\<close> option.
\<close>

theorem sign_without_set_frame:
  "(\<not> set_opt opts \<and> signRequest E K now H c req opts = (r, req', H') \<longrightarrow>
      req' = req \<and> onlyHostPopulated H H' (url req))
   \<and> (\<not> set_s3 opts3 \<and> signS3Request E K now H c req3 opts3 = (r3, req3', H3') \<longrightarrow>
      req3' = req3 \<and> onlyHostPopulated H H3' (url req3))"
  using signRequest_frame[of opts E K now H c req r req' H']
    signS3Request_frame[of opts3 E K now H c req3 r3 req3' H3']
  by blast

lemma example_host:
  "host (urls (snd (snd (signRequest stubRuntime stubCrypto (str ''2020-01-01T00:00:00.000Z'')
       exampleHeap exampleCredentials exampleRequest defaultOptions))) 0)
     = Some (str ''s3.us-east-1.amazonaws.com'')"
proof -
  obtain r req' H' where e: "signRequest stubRuntime stubCrypto (str ''2020-01-01T00:00:00.000Z'')
       exampleHeap exampleCredentials exampleRequest defaultOptions = (r, req', H')"
    by (cases "signRequest stubRuntime stubCrypto (str ''2020-01-01T00:00:00.000Z'')
       exampleHeap exampleCredentials exampleRequest defaultOptions") auto
  have s: "\<not> set_opt defaultOptions" by (simp add: defaultOptions_def)
  have u: "resolveURL stubRuntime exampleHeap (url exampleRequest) = Inr (0, exampleHeap)"
    by (simp add: resolveURL_def exampleRequest_def)
  have f: "formatHost (str ''s3'') (Some (str ''us-east-1'')) = str ''s3.us-east-1.amazonaws.com''"
    by (simp add: formatHost_def str_def)
  have c: "resolveCredentials stubRuntime exampleHeap 0 exampleCredentials
     = Inr (spreadCredentials (DEFAULT_REGION, []) exampleCredentials,
            exampleHeap \<lparr> urls := (urls exampleHeap)(0 := (urls exampleHeap 0)
                \<lparr> host := Some (str ''s3.us-east-1.amazonaws.com'') \<rparr>) \<rparr>)"
    by (simp add: resolveCredentials_def exampleHeap_def exampleCredentials_def f) (simp add: str_def)
  from signRequest_cases(2)[OF s e]
  have "H' = snd (allocParams (exampleHeap \<lparr> urls := (urls exampleHeap)(0 := (urls exampleHeap 0)
                \<lparr> host := Some (str ''s3.us-east-1.amazonaws.com'') \<rparr>) \<rparr>) [])"
    by (simp add: u c) (simp add: exampleHeap_def)
  then have "host (urls H' 0) = Some (str ''s3.us-east-1.amazonaws.com'')"
    by (simp add: allocParams_def)
  then show ?thesis by (simp add: e)
qed

theorem sign_without_set_frame_counterexample:
  "\<not> set_opt defaultOptions
   \<and> host (urls exampleHeap 0) = None
   \<and> host (urls (snd (snd (signRequest stubRuntime stubCrypto (str ''2020-01-01T00:00:00.000Z'')
       exampleHeap exampleCredentials exampleRequest defaultOptions))) 0)
     = Some (str ''s3.us-east-1.amazonaws.com'')"
  using example_host by (simp add: defaultOptions_def exampleHeap_def)

theorem sign_without_set_frame_witness:
  "\<exists>r req' H' r3 req3' H3'.
     signRequest stubRuntime stubCrypto (str ''2020-01-01T00:00:00.000Z'')
       exampleHeap exampleCredentials exampleRequest defaultOptions = (r, req', H')
     \<and> signS3Request stubRuntime stubCrypto (str ''2020-01-01T00:00:00.000Z'')
       exampleHeap exampleCredentials exampleS3Request defaultS3Options = (r3, req3', H3')
     \<and> req' = exampleRequest \<and> onlyHostPopulated exampleHeap H' (UrlObject 0)
     \<and> req3' = exampleS3Request \<and> onlyHostPopulated exampleHeap H3' (UrlObject 0)"
proof -
  obtain r req' H' where e: "signRequest stubRuntime stubCrypto (str ''2020-01-01T00:00:00.000Z'')
       exampleHeap exampleCredentials exampleRequest defaultOptions = (r, req', H')"
    by (cases "signRequest stubRuntime stubCrypto (str ''2020-01-01T00:00:00.000Z'')
       exampleHeap exampleCredentials exampleRequest defaultOptions") auto
  obtain r3 req3' H3' where e3: "signS3Request stubRuntime stubCrypto (str ''2020-01-01T00:00:00.000Z'')
       exampleHeap exampleCredentials exampleS3Request defaultS3Options = (r3, req3', H3')"
    by (cases "signS3Request stubRuntime stubCrypto (str ''2020-01-01T00:00:00.000Z'')
       exampleHeap exampleCredentials exampleS3Request defaultS3Options") auto
  have s: "\<not> set_opt defaultOptions" "\<not> set_s3 defaultS3Options"
    by (simp_all add: defaultOptions_def defaultS3Options_def)
  have u: "url exampleRequest = UrlObject 0" "url exampleS3Request = UrlObject 0"
    by (simp_all add: exampleRequest_def exampleS3Request_def)
  note t = sign_without_set_frame[of defaultOptions stubRuntime stubCrypto
      "str ''2020-01-01T00:00:00.000Z''" exampleHeap exampleCredentials exampleRequest r req' H'
      defaultS3Options exampleS3Request r3 req3' H3']
  from t s e e3 have "req' = exampleRequest \<and> onlyHostPopulated exampleHeap H' (UrlObject 0)"
    "req3' = exampleS3Request \<and> onlyHostPopulated exampleHeap H3' (UrlObject 0)"
    unfolding u by blast+
  with e e3 show ?thesis by blast
qed

section \<open>The declared total length\<close>

lemma overhead_pos: "0 \<le> overhead l"
  by (simp add: overhead_def)

lemma length_natToHex: "length (natToHex n) \<le> 1 + n div 16"
proof (induction n rule: natToHex.induct)
  case (1 n)
  show ?case
  proof (cases "n < 16")
    case True
    then show ?thesis by (simp add: natToHex.simps)
  next
    case False
    then have "length (natToHex n) = length (natToHex (n div 16)) + 1"
      by (subst natToHex.simps) simp
    also have "\<dots> \<le> 1 + (n div 16) div 16 + 1" using 1[OF False] by simp
    also have "\<dots> \<le> 1 + n div 16" using False by simp
    finally show ?thesis .
  qed
qed

lemma overhead_le: "0 \<le> l \<Longrightarrow> overhead l \<le> l div 16 + 86"
proof -
  assume "0 \<le> l"
  have "int (length (natToHex (nat l))) \<le> int (1 + nat l div 16)"
    using length_natToHex[of "nat l"] by (simp only: of_nat_le_iff)
  also have "\<dots> = 1 + l div 16" using \<open>0 \<le> l\<close> by (simp add: zdiv_int)
  finally show ?thesis by (simp add: overhead_def str_def)
qed

lemma totalLength_unfold:
  assumes "chunkFraming N B' C' = Inr F"
  shows "totalLength F =
     numAdd (numAdd (numAdd (numAdd (numAdd (bodyLength F)
       (numMul (numAdd (numAdd (Num (int (length (chunkHeader F)))) (Num 64)) (Num 4)) (chunks F)))
       (if numTruthy (lastLength F)
        then numAdd (numAdd (Num (int (length (lastHeader F)))) (Num 64)) (Num 4)
        else Num 0))
       (Num (int (length (finalHeader F))))) (Num 64)) (Num 4)"
  using assms by (auto simp: chunkFraming_def Let_def split: sum.splits)

lemma safe_header_sum:
  assumes "0 \<le> l" "l < 2 ^ 53"
  shows "numAdd (numAdd (Num (int (length (toString16 N (Num l) @ str '';chunk-signature='')))) (Num 64)) (Num 4)
     = Num (overhead l)"
proof -
  have h: "toString16 N (Num l) = natToHex (nat l)" using assms by (simp add: toString16.simps)
  have o: "overhead l \<le> l div 16 + 86" by (rule overhead_le[OF assms(1)])
  have "l div 16 + 86 < 2 ^ 53" using assms by simp
  with o have lt: "overhead l < 2 ^ 53" by simp
  define x where "x = int (length (natToHex (nat l) @ str '';chunk-signature=''))"
  have x: "0 \<le> x" "overhead l = x + 64 + 4" by (simp_all add: x_def overhead_def)
  have 1: "numAdd (Num x) (Num 64) = Num (x + 64)" using x lt by (intro numAdd_safe) simp
  have 2: "numAdd (Num (x + 64)) (Num 4) = Num (x + 64 + 4)" using x lt by (intro numAdd_safe) simp
  show ?thesis unfolding h x_def[symmetric] 1 2 x(2) ..
qed

lemma totalLength_safe:
  assumes F: "chunkFraming N (Num B) (Num C) = Inr F" and sB: "B < 2 ^ 53" and sC: "C < 2 ^ 53"
    and T: "declaredTotal B C < 2 ^ 53"
  shows "totalLength F = Num (declaredTotal B C)"
proof -
  note f = chunkFraming_Inr[OF F sB sC]
  define q where "q = B div C"
  define r where "r = B mod C"
  define a where "a = overhead C"
  define b where "b = (if 0 < r then overhead r else 0)"
  have r0: "0 \<le> r" "r < C" unfolding r_def using f(3) by simp_all
  have q0: "0 \<le> q" unfolding q_def using f(3,4) by (simp add: pos_imp_zdiv_nonneg_iff)
  have T': "declaredTotal B C = B + q * a + b + overhead 0"
    by (simp add: declaredTotal_def q_def r_def a_def b_def minus_div_mult_eq_mod)
  have nn: "0 \<le> a" "0 \<le> b" "0 \<le> q * a"
    using q0 by (simp_all add: a_def b_def overhead_pos)
  have z: "overhead 0 = 18 + 64 + 4" by (simp add: overhead_def natToHex.simps str_def)
  have lt: "B + q * a + b + 18 + 64 + 4 < 2 ^ 53" using T unfolding T' z by simp
  have ha: "numAdd (numAdd (Num (int (length (chunkHeader F)))) (Num 64)) (Num 4) = Num a"
    unfolding f(7) a_def using f(3) sC by (intro safe_header_sum) simp_all
  have hb: "(if numTruthy (lastLength F)
        then numAdd (numAdd (Num (int (length (lastHeader F)))) (Num 64)) (Num 4)
        else Num 0) = Num b"
  proof (cases "r = 0")
    case True
    then show ?thesis by (simp add: f(6) r_def[symmetric] b_def)
  next
    case False
    have "numAdd (numAdd (Num (int (length (lastHeader F)))) (Num 64)) (Num 4) = Num (overhead r)"
      unfolding f(8) r_def[symmetric] using r0 sC by (intro safe_header_sum) simp_all
    then show ?thesis using False r0 by (simp add: f(6) r_def[symmetric] b_def)
  qed
  have "\<bar>a * q\<bar> < 2 ^ 53" using nn f(4) lt by (simp add: mult.commute)
  then have "numMul (Num a) (Num q) = Num (a * q)" by (rule numMul_safe)
  then have m: "numMul (Num a) (Num q) = Num (q * a)" by (simp add: mult.commute)
  have 1: "numAdd (Num B) (Num (q * a)) = Num (B + q * a)"
    using nn f(4) lt by (intro numAdd_safe) simp
  have 2: "numAdd (Num (B + q * a)) (Num b) = Num (B + q * a + b)"
    using nn f(4) lt by (intro numAdd_safe) simp
  have 3: "numAdd (Num (B + q * a + b)) (Num 18) = Num (B + q * a + b + 18)"
    using nn f(4) lt by (intro numAdd_safe) simp
  have 4: "numAdd (Num (B + q * a + b + 18)) (Num 64) = Num (B + q * a + b + 18 + 64)"
    using nn f(4) lt by (intro numAdd_safe) simp
  have 5: "numAdd (Num (B + q * a + b + 18 + 64)) (Num 4) = Num (B + q * a + b + 18 + 64 + 4)"
    using nn f(4) lt by (intro numAdd_safe) simp
  have fl: "int (length (finalHeader F)) = 18" by (simp add: f(9) str_def)
  show ?thesis
    unfolding totalLength_unfold[OF F] ha hb f(1) f(5) q_def[symmetric] m 1 2 fl 3 4 5 T' z
    by simp
qed

lemma length_frame:
  "int (length (frame N first len sig)) =
     int (length (toString16 N (Num len))) + 17 + int (length sig) + 4
     - (if first then 2 else 0) + (if len = 0 then 2 else 0)"
  by (simp add: frame_def CRLF_def str_def)

lemma sum_frames:
  assumes h: "\<forall>k m. length (hmac_sha256 K k m) = 32"
  shows "(\<Sum>f\<leftarrow>frames N K sg ts first prev cs. int (length f)) =
     (\<Sum>l\<leftarrow>map bytesOf cs. int (length (toString16 N (Num l))) + 85)
     - (if first \<and> cs \<noteq> [] then 2 else 0)
     + 2 * int (length (filter (\<lambda>l. l = 0) (map bytesOf cs)))"
proof (induction cs arbitrary: first prev)
  case Nil
  then show ?case by simp
next
  case (Cons c cs)
  show ?case
    by (simp add: Let_def length_frame signS3Chunk_64(1)[OF h] Cons.IH)
qed

lemma safe_overhead:
  assumes "0 \<le> l" "l < 2 ^ 53"
  shows "int (length (toString16 N (Num l))) + 85 = overhead l"
  using assms by (simp add: toString16.simps overhead_def str_def)

lemma sum_conforming:
  assumes C: "8192 \<le> C" and B: "0 \<le> B" and sB: "B < 2 ^ 53" and sC: "C < 2 ^ 53"
  shows "B + (\<Sum>l\<leftarrow>conformingLengths B C. int (length (toString16 N (Num l))) + 85) = declaredTotal B C"
    and "length (filter (\<lambda>l. l = 0) (conformingLengths B C)) = 1"
proof -
  have q: "0 \<le> B div C" using C B by (simp add: pos_imp_zdiv_nonneg_iff)
  have r: "0 \<le> B mod C" "B mod C < C" using C by simp_all
  have s: "sum_list (replicate n y) = int n * y" for n and y :: int
    by (induction n) (simp_all add: algebra_simps)
  have oC: "int (length (toString16 N (Num C))) + 85 = overhead C"
    using C sC by (intro safe_overhead) simp_all
  have oR: "int (length (toString16 N (Num (B mod C)))) + 85 = overhead (B mod C)"
    using r sC by (intro safe_overhead) simp_all
  have o0: "int (length (toString16 N (Num 0))) + 85 = overhead 0"
    by (intro safe_overhead) simp_all
  show "B + (\<Sum>l\<leftarrow>conformingLengths B C. int (length (toString16 N (Num l))) + 85) = declaredTotal B C"
    using q by (simp add: conformingLengths_def declaredTotal_def minus_div_mult_eq_mod s oC oR o0
        del: of_nat_add)
  show "length (filter (\<lambda>l. l = 0) (conformingLengths B C)) = 1"
    using C r by (simp add: conformingLengths_def minus_div_mult_eq_mod)
qed

lemma complete_run_lengths:
  assumes F: "chunkFraming N (Num B) (Num C) = Inr F" and sB: "B < 2 ^ 53" and sC: "C < 2 ^ 53"
    and r: "runSigner K F sg ts (newSigner seed) cs = Inr (outs, st)" and d: "isDone st"
  shows "map bytesOf cs = conformingLengths B C"
proof -
  from runSigner_new(1,3)[OF F sB sC r] d
  have "map chunkLen cs = map (Some \<circ> Num) (conformingLengths B C)"
    by (simp add: length_conformingLengths[symmetric])
  then have "map (\<lambda>x. case x of Some (Num n) \<Rightarrow> n | _ \<Rightarrow> 0) (map chunkLen cs)
     = map (\<lambda>x. case x of Some (Num n) \<Rightarrow> n | _ \<Rightarrow> 0) (map (Some \<circ> Num) (conformingLengths B C))"
    by (rule arg_cong)
  then show ?thesis by (simp add: bytesOf_def[abs_def] comp_def)
qed

lemma emitted_total:
  assumes F: "chunkFraming N (Num B) (Num C) = Inr F" and sB: "B < 2 ^ 53" and sC: "C < 2 ^ 53"
    and h: "\<forall>k m. length (hmac_sha256 K k m) = 32"
    and r: "runSigner K F sg ts (newSigner seed) cs = Inr (outs, st)" and d: "isDone st"
  shows "declaredTotal B C = B + (\<Sum>f\<leftarrow>outs. int (length f))"
proof -
  note f = chunkFraming_Inr[OF F sB sC]
  have o: "outs = frames N K sg ts True seed cs" by (rule runSigner_new_frames[OF F sB sC r])
  have m: "map bytesOf cs = conformingLengths B C" by (rule complete_run_lengths[OF F sB sC r d])
  have ne: "cs \<noteq> []" using m by (auto simp: conformingLengths_def)
  show ?thesis
    unfolding o sum_frames[OF h] m sum_conforming(2)[OF f(3,4) sB sC]
      sum_conforming(1)[OF f(3,4) sB sC, of N, symmetric]
    using ne by simp
qed

section \<open>The signer of a chunked request\<close>

lemma signS3ChunkedRequest_lengths:
  assumes "chunkFraming N B C = Inl e"
  shows "signS3ChunkedRequest E N K now H c req B C opts = (Inl e, req, H)"
  using assms by (simp add: signS3ChunkedRequest_def)

lemma callChunkSigner_chunkSigner:
  "fst (callChunkSigner K s chunk)
     = fst (chunkSigner K (signerFraming s) (signerSigning s) (signerTimestamp s) (signerState s) chunk)"
  "signerState (snd (callChunkSigner K s chunk))
     = snd (chunkSigner K (signerFraming s) (signerSigning s) (signerTimestamp s) (signerState s) chunk)"
  "signerFraming (snd (callChunkSigner K s chunk)) = signerFraming s"
  by (simp_all add: callChunkSigner_def split: prod.splits)

lemma in_keys_objSet: "x \<in> fst ` set (objSet obj k v) \<longleftrightarrow> x = k \<or> x \<in> fst ` set obj"
  by (induction obj) force+

lemma keys_objSet: "fst ` set (objSet obj k v) = insert k (fst ` set obj)"
  using in_keys_objSet[of _ obj k v] by blast

lemma keys_foldl_objSet:
  "fst ` set (foldl (\<lambda>acc (k, v). objSet acc k v) a b) = fst ` set a \<union> fst ` set b"
proof (induction b arbitrary: a)
  case Nil
  then show ?case by simp
next
  case (Cons p b)
  obtain k v where p: "p = (k, v)" by (cases p)
  show ?case by (simp add: p Cons.IH keys_objSet)
qed

lemma keys_objSpread: "fst ` set (objSpread a b) = fst ` set a \<union> fst ` set b"
  unfolding objSpread_def by (rule keys_foldl_objSet)

lemma map_of_objSet: "map_of (objSet obj k v) k' = (if k' = k then Some v else map_of obj k')"
  by (induction obj) auto

lemma map_of_foldl_objSet:
  "k \<notin> fst ` set b \<Longrightarrow> map_of (foldl (\<lambda>acc (k, v). objSet acc k v) a b) k = map_of a k"
proof (induction b arbitrary: a)
  case Nil
  then show ?case by simp
next
  case (Cons p b)
  obtain k' v where p: "p = (k', v)" by (cases p)
  from Cons.prems have "k \<notin> fst ` set b" "k \<noteq> k'" by (auto simp: p)
  then show ?case by (simp add: p Cons.IH map_of_objSet)
qed

lemma map_of_objSpread: "k \<notin> fst ` set b \<Longrightarrow> map_of (objSpread a b) k = map_of a k"
  unfolding objSpread_def by (rule map_of_foldl_objSet)

lemma findHeader_key: "findHeader E h name = Some (k, v) \<Longrightarrow> toLowerCase E k = name"
  by (induction h) (auto split: if_splits)

lemma getHeader_key:
  assumes "toLowerCase E name = name"
  shows "toLowerCase E (fst (getHeader E h name)) = name"
  using assms findHeader_key[of E _ name]
  by (auto simp: getHeader_def Let_def split: option.splits)

lemma signRequestRaw_keys:
  assumes "\<not> query opts" "signRequestRaw E K now creds meth path q hdrs bdy opts = Inr res"
  shows "fst ` set res \<subseteq> {str ''x-amz-date'',
           fst (getHeader E (Some hdrs) (str ''x-amz-content-sha256'')),
           fst (getHeader E (Some hdrs) (str ''authorization''))}"
  using assms
  by (auto simp: signRequestRaw_def Let_def in_keys_objSet freshTimestamp_def
      split: sum.splits if_splits)

lemma signRequest_result:
  assumes "signRequest E K now H c req opts = (Inr res, req', H')"
  shows "\<exists>creds meth path q hdrs. signRequestRaw E K now creds meth path q hdrs (body req) opts = Inr res"
  using assms
  by (auto simp: signRequest_def Let_def split: sum.splits prod.splits if_splits; blast)

lemma signRequest_keys:
  assumes q: "\<not> query opts" and l: "keepsLowerCase E"
    and e: "signRequest E K now H c req opts = (Inr res, req', H')"
  shows "str ''content-length'' \<notin> fst ` set res"
proof
  assume a: "str ''content-length'' \<in> fst ` set res"
  from signRequest_result[OF e] obtain creds meth path q' hdrs where
    r: "signRequestRaw E K now creds meth path q' hdrs (body req) opts = Inr res" by blast
  from l have f: "toLowerCase E (str ''content-length'') = str ''content-length''"
    "toLowerCase E (str ''x-amz-content-sha256'') = str ''x-amz-content-sha256''"
    "toLowerCase E (str ''authorization'') = str ''authorization''"
    by (simp_all add: keepsLowerCase_def)
  from signRequestRaw_keys[OF q r] a
  consider "str ''content-length'' = str ''x-amz-date''"
    | "str ''content-length'' = fst (getHeader E (Some hdrs) (str ''x-amz-content-sha256''))"
    | "str ''content-length'' = fst (getHeader E (Some hdrs) (str ''authorization''))"
    by blast
  then show False
  proof cases
    case 1
    then show False by (simp add: str_def)
  next
    case 2
    then have "toLowerCase E (str ''content-length'') = str ''x-amz-content-sha256''"
      using getHeader_key[OF f(2), of "Some hdrs"] by simp
    then show False unfolding f(1) by (simp add: str_def)
  next
    case 3
    then have "toLowerCase E (str ''content-length'') = str ''authorization''"
      using getHeader_key[OF f(3), of "Some hdrs"] by simp
    then show False unfolding f(1) by (simp add: str_def)
  qed
qed

lemma signS3Request_result:
  assumes q: "\<not> query_s3 opts"
    and e: "signS3Request E K now H c req opts = (Inr res, req', H')"
  shows "\<exists>H2 c' (copy :: s3request) res' copy' H3.
     signRequest E K now H2 c' copy (withS3Options opts) = (Inr res', copy', H3)
     \<and> res = objSpread [] res'"
proof -
  obtain u0 H1 where u: "resolveURL E H (url req) = Inr (u0, H1)"
    using e by (cases "resolveURL E H (url req)") (auto simp: signS3Request_def)
  obtain extra u hdrs H2 where pr: "s3Prepare H1 u0 req opts = (extra, u, hdrs, H2)"
    by (cases "s3Prepare H1 u0 req opts") auto
  have x: "extra = []"
    using pr q by (auto simp: s3Prepare_def split: if_splits option.splits prod.splits)
  define c' where "c' = (if \<not> truthyStr (host (urls H2 u))
        then c \<lparr> serviceName' := (case serviceName' c of Some s \<Rightarrow> Some s | None \<Rightarrow> Some (str ''s3'')) \<rparr>
        else c)"
  define copy where "copy = req \<lparr> headers := hdrs, url := UrlObject u,
      body := (if (case unsigned req of Some b \<Rightarrow> b | None \<Rightarrow> query_s3 opts)
               then Some (BodyHash PAYLOAD_UNSIGNED None) else body (req \<lparr> headers := hdrs \<rparr>)) \<rparr>"
  obtain r' copy' H3 where sr: "signRequest E K now H2 c' copy (withS3Options opts) = (r', copy', H3)"
    by (cases "signRequest E K now H2 c' copy (withS3Options opts)")
  have e': "signS3Request E K now H c req opts =
      (case (r', copy', H3) of
         (Inl e, copy', H3) \<Rightarrow> (Inl e, req \<lparr> headers := hdrs \<rparr>, H3)
       | (Inr res, copy', H3) \<Rightarrow>
           (case s3Finish E H3 u (req \<lparr> headers := hdrs \<rparr>) opts of
              (req2, H4) \<Rightarrow> (Inr (objSpread extra res), req2, H4)))"
    unfolding signS3Request_def u sum.case prod.case pr Let_def sr[symmetric] c'_def copy_def ..
  show ?thesis
  proof (cases r')
    case (Inl e1)
    then show ?thesis using e e' by simp
  next
    case (Inr res')
    then have "res = objSpread extra res'" using e e' by (auto split: prod.splits)
    with sr Inr x have "signRequest E K now H2 c' copy (withS3Options opts) = (Inr res', copy', H3)
       \<and> res = objSpread [] res'" by simp
    then show ?thesis by (intro exI)
  qed
qed

lemma signS3Request_keys:
  assumes q: "\<not> query_s3 opts" and l: "keepsLowerCase E"
    and e: "signS3Request E K now H c req opts = (Inr res, req', H')"
  shows "str ''content-length'' \<notin> fst ` set res"
proof -
  from signS3Request_result[OF q e] obtain H2 c' and copy :: s3request and res' copy' H3 where
    s: "signRequest E K now H2 c' copy (withS3Options opts) = (Inr res', copy', H3)"
    and r: "res = objSpread [] res'" by blast
  have "\<not> query (withS3Options opts)" using q by (simp add: withS3Options_def)
  from signRequest_keys[OF this l s] show ?thesis by (simp add: r keys_objSpread)
qed

text \<open>Whenever \<open>signS3ChunkedRequest\<close> returns, the signer it returns works on the framing of
  the two lengths and starts with no byte accepted and not done, so that the properties of
  \<open>chunkSigner\<close> above are properties of the returned function; and the parameters it returns
  hold the total length of that framing as \<open>content-length\<close>.\<close>

lemma signS3ChunkedRequest_content_length:
  assumes e: "signS3ChunkedRequest E N K now H c req B' C' opts = (Inr (params, sg), req', H')"
    and l: "keepsLowerCase E"
  shows "chunkFraming N B' C' = Inr (signerFraming sg)"
    and "map_of params (str ''content-length'') = Some (numberValue N (totalLength (signerFraming sg)))"
    and "\<exists>seed. signerState sg = newSigner seed"
proof -
  obtain F where F: "chunkFraming N B' C' = Inr F"
    using e by (cases "chunkFraming N B' C'") (auto simp: signS3ChunkedRequest_def)
  obtain ts extra where x: "chunkedExtra E N now (map_option (headerObjs H) (headers req)) F = Inr (ts, extra)"
    using e F by (cases "chunkedExtra E N now (map_option (headerObjs H) (headers req)) F")
      (auto simp: signS3ChunkedRequest_def)
  obtain h req1 H1 where p: "patchHeaders H req extra (set_s3 opts) = (h, req1, H1)"
    by (cases "patchHeaders H req extra (set_s3 opts)") auto
  define copy where "copy = req1 \<lparr> headers := Some h, body := Some (BodyHash PAYLOAD_STREAMING None) \<rparr>"
  obtain r copy' H2 where s: "signS3Request E K now H1 c copy (opts \<lparr> query_s3 := False \<rparr>) = (r, copy', H2)"
    by (cases "signS3Request E K now H1 c copy (opts \<lparr> query_s3 := False \<rparr>)")
  note e' = e[unfolded signS3ChunkedRequest_def F sum.case x prod.case p Let_def, folded copy_def,
      unfolded s prod.case]
  obtain res where r: "r = Inr res" using e' by (cases r) auto
  have nq: "\<not> query_s3 (opts \<lparr> query_s3 := False \<rparr>)" by simp
  have k: "str ''content-length'' \<notin> fst ` set res"
    by (rule signS3Request_keys[OF nq l s[unfolded r]])
  have cl: "map_of extra (str ''content-length'') = Some (numberValue N (totalLength F))"
    using x by (auto simp: chunkedExtra_def Let_def map_of_objSet str_def split: sum.splits if_splits)
  have "params = objSpread extra (map (\<lambda>(k, v). (k, HString v)) res)
     \<and> signerFraming sg = F \<and> (\<exists>seed. signerState sg = newSigner seed)"
    using e' unfolding r by (auto split: option.splits sum.splits list.splits)
  moreover have "fst ` set (map (\<lambda>(k, v). (k, HString v)) res) = fst ` set res" by force
  ultimately show "chunkFraming N B' C' = Inr (signerFraming sg)"
    and "map_of params (str ''content-length'') = Some (numberValue N (totalLength (signerFraming sg)))"
    and "\<exists>seed. signerState sg = newSigner seed"
    using F cl k by (simp_all add: map_of_objSpread)
qed

section \<open>The chunked request of the example\<close>

text \<open>The request of the example, signed for a body sent in chunks, evaluated step by step:
  the headers that are added, the request that is signed, the \<open>Authorization\<close> that comes
  back and is parsed again, and the signer that is returned.\<close>

lemma streaming_total: "declaredTotal 16484 8192 = 16835"
  by (simp add: declaredTotal_def overhead_def natToHex.simps str_def)

lemma streaming_extra:
  "chunkedExtra stubRuntime N (str ''2020-01-01T00:00:00.000Z'') None F
     = Inr (str ''20200101T000000Z'',
            exampleExtra (numberValue N (totalLength F)) (numberValue N (bodyLength F)))"
  by (simp add: chunkedExtra_def getHeader_def stubRuntime_def asciiLower_def formatTimestamp_def
      exampleExtra_def Let_def str_def)

lemma streaming_patch:
  "patchHeaders exampleHeap exampleS3Request (exampleExtra v w) False
     = (1, exampleS3Request, exampleHeap1 v w)"
  by (simp add: patchHeaders_def allocHeaders_def exampleHeap_def exampleS3Request_def objSpread_def
      Let_def exampleExtra_def exampleHeap1_def str_def)

lemma streaming_getHeader:
  "getHeader stubRuntime (Some (exampleExtra v w @ [(str ''host'', HString (str ''s3.us-east-1.amazonaws.com''))]))
      (str ''authorization'') = (str ''authorization'', None)"
  "getHeader stubRuntime (Some (exampleExtra v w @ [(str ''host'', HString (str ''s3.us-east-1.amazonaws.com''))]))
      (str ''x-amz-date'') = (str ''x-amz-date'', Some (str ''20200101T000000Z''))"
  "getHeader stubRuntime (Some (exampleExtra v w @ [(str ''host'', HString (str ''s3.us-east-1.amazonaws.com''))]))
      (str ''x-amz-content-sha256'') = (str ''x-amz-content-sha256'', None)"
  "getHeader stubRuntime (Some (exampleExtra v w)) (str ''host'') = (str ''host'', None)"
  by (simp_all add: getHeader_def stubRuntime_def asciiLower_def exampleExtra_def str_def)

lemma streaming_cheaders:
  "\<exists>ch. getCanonicalHeaders stubRuntime
     (exampleExtra v w @ [(str ''host'', HString (str ''s3.us-east-1.amazonaws.com'')),
        (str ''x-amz-content-sha256'', HString PAYLOAD_STREAMING)])
   = Inr (ch, signedHeaders exampleAuth)"
  by (simp add: getCanonicalHeaders_def stubRuntime_def asciiLower_def exampleExtra_def exampleAuth_def
      Let_def str_def del: canonicalValue.simps)


lemma streaming_raw:
  "signRequestRaw stubRuntime stubCrypto (str ''2020-01-01T00:00:00.000Z'')
      \<lparr> accessKey = str ''AKID'', secretKey = str ''secret'', regionName = str ''us-east-1'',
        serviceName = str ''s3'' \<rparr>
      (str ''GET'') (str ''/'') []
      (exampleExtra v w @ [(str ''host'', HString (str ''s3.us-east-1.amazonaws.com''))])
      (Some (BodyHash PAYLOAD_STREAMING None))
      (withS3Options (defaultS3Options \<lparr> query_s3 := False \<rparr>))
   = Inr [(str ''x-amz-content-sha256'', PAYLOAD_STREAMING),
          (str ''authorization'', buildAuthorization exampleAuth)]"
proof -
  let ?h = "exampleExtra v w @ [(str ''host'', HString (str ''s3.us-east-1.amazonaws.com''))]"
  have s: "scope (getSigningData stubCrypto (str ''20200101T000000Z'') (str ''secret'')
       (str ''us-east-1'') (str ''s3'')) = str ''20200101/us-east-1/s3/aws4_request''"
    by (simp add: getSigningData_def Let_def str_def)
  have ne: "str ''20200101T000000Z'' \<noteq> []" by (simp add: str_def)
  have d: "objDelete (objSpread ?h [(str ''x-amz-content-sha256'', HString PAYLOAD_STREAMING)])
       (str ''authorization'')
     = exampleExtra v w @ [(str ''host'', HString (str ''s3.us-east-1.amazonaws.com'')),
        (str ''x-amz-content-sha256'', HString PAYLOAD_STREAMING)]"
    by (simp add: objDelete_def objSpread_def exampleExtra_def str_def)
  have o: "withS3Options (defaultS3Options \<lparr> query_s3 := False \<rparr>)
     = \<lparr> dontNormalize = True, onlyEncodeOnce = True, query = False, set_opt = False,
         setContentHash = True, getSigningData_opt = None \<rparr>"
    by (simp add: withS3Options_def defaultS3Options_def)
  obtain ch where c: "getCanonicalHeaders stubRuntime
     (exampleExtra v w @ [(str ''host'', HString (str ''s3.us-east-1.amazonaws.com'')),
        (str ''x-amz-content-sha256'', HString PAYLOAD_STREAMING)])
   = Inr (ch, signedHeaders exampleAuth)" using streaming_cheaders by blast
  show ?thesis
    unfolding signRequestRaw_def Let_def o
    apply (simp add: streaming_getHeader getSigning_def s d c ne)
    apply (simp add: exampleAuth_def signDigest_def signString_def stubCrypto_def)
    apply (simp add: str_def)
    done
qed

lemma streaming_objSet_host:
  "objSet (exampleExtra v w) (str ''host'') x = exampleExtra v w @ [(str ''host'', x)]"
  by (simp add: exampleExtra_def str_def)

lemma fst_case_sum:
  "(\<And>r. fst (G r) = Inr r) \<Longrightarrow> fst (case X of Inl e \<Rightarrow> (Inl e, a, b) | Inr r \<Rightarrow> G r) = X"
  by (cases X) simp_all

lemma signRequest_fst:
  assumes "resolveURL E H (url req) = Inr (u, H1)" "resolveCredentials E H1 u c = Inr (creds, H2)"
  shows "fst (signRequest E K now H c req opts) =
     signRequestRaw E K now creds
       (if truthyStr (httpMethod req) then (case httpMethod req of Some m \<Rightarrow> m | None \<Rightarrow> [])
        else str ''GET'')
       (if truthyStr (pathname (urls (snd (case searchParams (urls H2 u) of Some p \<Rightarrow> (p, H2)
                                              | None \<Rightarrow> allocParams H2 [])) u))
        then (case pathname (urls (snd (case searchParams (urls H2 u) of Some p \<Rightarrow> (p, H2)
                                              | None \<Rightarrow> allocParams H2 [])) u) of
                Some p \<Rightarrow> p | None \<Rightarrow> [])
        else str ''/'')
       (paramObjs (snd (case searchParams (urls H2 u) of Some p \<Rightarrow> (p, H2) | None \<Rightarrow> allocParams H2 []))
          (fst (case searchParams (urls H2 u) of Some p \<Rightarrow> (p, H2) | None \<Rightarrow> allocParams H2 [])))
       (if \<not> truthyStr (snd (getHeader E (map_option (headerObjs H2) (headers req)) (str ''host'')))
        then objSet (case map_option (headerObjs H2) (headers req) of Some h \<Rightarrow> h | None \<Rightarrow> [])
               (str ''host'') (case host (urls H2 u) of Some h \<Rightarrow> HString h | None \<Rightarrow> HUndefined)
        else (case map_option (headerObjs H2) (headers req) of Some h \<Rightarrow> h | None \<Rightarrow> []))
       (body req) opts"
  unfolding signRequest_def assms sum.case prod.case Let_def
  by (rule fst_case_sum) (simp split: urlField.splits)

lemma streaming_signRequest:
  "fst (signRequest stubRuntime stubCrypto (str ''2020-01-01T00:00:00.000Z'') (exampleHeap1 v w)
      exampleCredentials (exampleCopy \<lparr> url := UrlObject 0 \<rparr>)
      (withS3Options (defaultS3Options \<lparr> query_s3 := False \<rparr>)))
   = Inr [(str ''x-amz-content-sha256'', PAYLOAD_STREAMING),
          (str ''authorization'', buildAuthorization exampleAuth)]"
proof -
  have h: "headers (exampleCopy \<lparr> url := UrlObject 0 \<rparr>) = Some 1"
    "httpMethod (exampleCopy \<lparr> url := UrlObject 0 \<rparr>) = None"
    "body (exampleCopy \<lparr> url := UrlObject 0 \<rparr>) = Some (BodyHash PAYLOAD_STREAMING None)"
    "url (exampleCopy \<lparr> url := UrlObject 0 \<rparr>) = UrlObject 0"
    by (simp_all add: exampleCopy_def exampleS3Request_def)
  have u: "resolveURL stubRuntime (exampleHeap1 v w) (url (exampleCopy \<lparr> url := UrlObject 0 \<rparr>))
      = Inr (0, exampleHeap1 v w)"
    by (simp add: resolveURL_def h)
  have f: "formatHost (str ''s3'') (Some (str ''us-east-1'')) = str ''s3.us-east-1.amazonaws.com''"
    by (simp add: formatHost_def str_def)
  define H2 where "H2 = exampleHeap1 v w \<lparr> urls := (urls (exampleHeap1 v w))(0 := (urls (exampleHeap1 v w) 0)
                \<lparr> host := Some (str ''s3.us-east-1.amazonaws.com'') \<rparr>) \<rparr>"
  have c: "resolveCredentials stubRuntime (exampleHeap1 v w) 0 exampleCredentials
     = Inr (\<lparr> accessKey = str ''AKID'', secretKey = str ''secret'', regionName = str ''us-east-1'',
        serviceName = str ''s3'' \<rparr>, H2)"
    by (simp add: resolveCredentials_def exampleHeap1_def exampleHeap_def exampleCredentials_def f
        H2_def spreadCredentials_def) (simp add: str_def)
  have g: "headerObjs H2 (Suc 0) = exampleExtra v w" "host (urls H2 0) = Some (str ''s3.us-east-1.amazonaws.com'')"
    "searchParams (urls H2 0) = None" "pathname (urls H2 0) = Some (str ''/'')"
    "nextRef H2 = 2" "paramObjs H2 2 = []"
    by (simp_all add: H2_def exampleHeap1_def exampleHeap_def)
  have p: "str ''/'' \<noteq> []" by (simp add: str_def)
  show ?thesis
    unfolding signRequest_fst[OF u c]
    by (simp add: h g streaming_getHeader streaming_objSet_host allocParams_def streaming_raw p)
qed

lemma signS3Request_fst:
  assumes "resolveURL E H (url req) = Inr (u0, H1)" "s3Prepare H1 u0 req opts = (extra, u, hdrs, H2)"
  shows "fst (signS3Request E K now H c req opts) =
     (case fst (signRequest E K now H2
                 (if \<not> truthyStr (host (urls H2 u))
                  then c \<lparr> serviceName' :=
                           (case serviceName' c of Some s \<Rightarrow> Some s | None \<Rightarrow> Some (str ''s3'')) \<rparr>
                  else c)
                 (req \<lparr> headers := hdrs, url := UrlObject u,
                    body := (if (case unsigned req of Some b \<Rightarrow> b | None \<Rightarrow> query_s3 opts)
                             then Some (BodyHash PAYLOAD_UNSIGNED None)
                             else body (req \<lparr> headers := hdrs \<rparr>)) \<rparr>)
                 (withS3Options opts)) of
        Inl e \<Rightarrow> Inl e
      | Inr res \<Rightarrow> Inr (objSpread extra res))"
  unfolding signS3Request_def assms sum.case prod.case Let_def
  by (simp split: prod.splits sum.splits)

lemma parse_build:
  assumes "wellFormed x"
  shows "parseAuthorization (buildAuthorization x) = Inr x"
proof -
  let ?fs = "[(str ''Credential'', credential x), (str ''SignedHeaders'', signedHeaders x),
      (str ''Signature'', bufferToHex (signatureBuf x))]"
  from assms have a: "wfAlgorithm (algorithm x)"
    by (simp add: wellFormed_def claimedWellFormed_def wfAlgorithm_def)
  from assms have w: "\<forall>f \<in> set ?fs. wfField f"
    by (simp add: wellFormed_def claimedWellFormed_def wfField_def names_wf str_simps bufferToHex_props)
  have h: "headerFields (buildAuthorization x) = Inr (algorithm x, ?fs)"
    unfolding buildAuthorization_render by (rule headerFields_render[OF a _ w]) simp
  have l: "lastValue ?fs (str ''Signature'') = Some (bufferToHex (signatureBuf x))"
    "lastValue ?fs (str ''Credential'') = Some (credential x)"
    "lastValue ?fs (str ''SignedHeaders'') = Some (signedHeaders x)"
    using names_distinct by (simp_all add: lastValue_def)
  have v: "validSignature (bufferToHex (signatureBuf x))"
    using assms by (simp add: bufferToHex_props wellFormed_def claimedWellFormed_def)
  show ?thesis
    by (simp add: parseAuthorization_headerFields h l v bufferFromHex_bufferToHex del: lastValue_def)
qed

lemma streaming_wellFormed: "wellFormed exampleAuth"
  by (simp add: wellFormed_def claimedWellFormed_def startsWithSpace_def endsWithSpace_def
      isSpace_def exampleAuth_def MAIN_ALGORITHM_def str_def)

lemma streaming_credential:
  "take 2 (drop 2 (splitOn (of_char CHR ''/'') (credential exampleAuth))) = [str ''us-east-1'', str ''s3'']"
  by (simp add: exampleAuth_def str_def)

lemma streaming_signS3Request:
  "fst (signS3Request stubRuntime stubCrypto (str ''2020-01-01T00:00:00.000Z'') (exampleHeap1 v w)
      exampleCredentials exampleCopy (defaultS3Options \<lparr> query_s3 := False \<rparr>))
   = Inr [(str ''x-amz-content-sha256'', PAYLOAD_STREAMING),
          (str ''authorization'', buildAuthorization exampleAuth)]"
proof -
  have u: "resolveURL stubRuntime (exampleHeap1 v w) (url exampleCopy) = Inr (0, exampleHeap1 v w)"
    by (simp add: resolveURL_def exampleCopy_def exampleS3Request_def)
  have p: "s3Prepare (exampleHeap1 v w) 0 exampleCopy (defaultS3Options \<lparr> query_s3 := False \<rparr>)
     = ([], 0, headers exampleCopy, exampleHeap1 v w)"
    by (simp add: s3Prepare_def defaultS3Options_def)
  have c: "exampleCredentials \<lparr> serviceName' :=
       (case serviceName' exampleCredentials of Some s \<Rightarrow> Some s | None \<Rightarrow> Some (str ''s3'')) \<rparr>
     = exampleCredentials"
    by (simp add: exampleCredentials_def)
  have r: "exampleCopy \<lparr> headers := headers exampleCopy, url := UrlObject 0,
       body := body (exampleCopy \<lparr> headers := headers exampleCopy \<rparr>) \<rparr> = exampleCopy \<lparr> url := UrlObject 0 \<rparr>"
    by (simp add: exampleCopy_def exampleS3Request_def)
  have n: "s3request.unsigned exampleCopy = None" "\<not> query_s3 (defaultS3Options \<lparr> query_s3 := False \<rparr>)"
    by (simp_all add: exampleCopy_def exampleS3Request_def)
  have h: "\<not> truthyStr (host (urls (exampleHeap1 v w) 0))"
    by (simp add: exampleHeap1_def exampleHeap_def)
  show ?thesis
    unfolding signS3Request_fst[OF u p]
    by (simp add: h c n r streaming_signRequest) (simp add: objSpread_def str_def)
qed

lemma streaming_chunked:
  assumes F: "chunkFraming N B' C' = Inr F"
  shows "\<exists>params sg req' H'.
     signS3ChunkedRequest stubRuntime N stubCrypto (str ''2020-01-01T00:00:00.000Z'')
       exampleHeap exampleCredentials exampleS3Request B' C' defaultS3Options
     = (Inr (params, sg), req', H')"
proof -
  define v where "v = numberValue N (totalLength F)"
  define w where "w = numberValue N (bodyLength F)"
  have x: "chunkedExtra stubRuntime N (str ''2020-01-01T00:00:00.000Z'')
      (map_option (headerObjs exampleHeap) (headers exampleS3Request)) F
     = Inr (str ''20200101T000000Z'', exampleExtra v w)"
    using streaming_extra[of N F] by (simp add: exampleS3Request_def v_def w_def)
  have p: "patchHeaders exampleHeap exampleS3Request (exampleExtra v w) (set_s3 defaultS3Options)
     = (1, exampleS3Request, exampleHeap1 v w)"
    using streaming_patch by (simp add: defaultS3Options_def)
  have c: "exampleS3Request \<lparr> headers := Some 1, body := Some (BodyHash PAYLOAD_STREAMING None) \<rparr>
     = exampleCopy" by (simp add: exampleCopy_def)
  obtain r copy' H2 where r: "signS3Request stubRuntime stubCrypto (str ''2020-01-01T00:00:00.000Z'')
      (exampleHeap1 v w) exampleCredentials exampleCopy (defaultS3Options \<lparr> query_s3 := False \<rparr>)
     = (r, copy', H2)"
    by (cases "signS3Request stubRuntime stubCrypto (str ''2020-01-01T00:00:00.000Z'')
      (exampleHeap1 v w) exampleCredentials exampleCopy (defaultS3Options \<lparr> query_s3 := False \<rparr>)")
  with streaming_signS3Request[of v w] have r': "r = Inr [(str ''x-amz-content-sha256'', PAYLOAD_STREAMING),
          (str ''authorization'', buildAuthorization exampleAuth)]" by simp
  have m: "map_of (objSpread (exampleExtra v w) (map (\<lambda>(k, v). (k, HString v))
          [(str ''x-amz-content-sha256'', PAYLOAD_STREAMING),
           (str ''authorization'', buildAuthorization exampleAuth)])) (str ''authorization'')
     = Some (HString (buildAuthorization exampleAuth))"
    by (simp add: objSpread_def exampleExtra_def str_def)
  show ?thesis
    unfolding signS3ChunkedRequest_def F sum.case x prod.case p Let_def c r r'
      m option.case valueToString.simps parse_build[OF streaming_wellFormed] streaming_credential list.case
    by blast
qed

lemma stubRuntime_keepsLowerCase: "keepsLowerCase stubRuntime"
  by (simp add: keepsLowerCase_def stubRuntime_def asciiLower_def str_def)

lemma streaming_calls: "conformingLengths 16484 8192 = [8192, 8192, 100, 0]"
  "conformingCalls 16484 8192 = 4"
  by (simp_all add: conformingLengths_def conformingCalls_def numeral_2_eq_2)

text \<open>The body of \<open>2 ^ 53 - 1\<close> bytes in chunks of 8192 bytes: the sum of the code passes
  \<open>2 ^ 53\<close> and is rounded on the way, to one more than the declared total of the
  specification.\<close>

lemma large_total:
  assumes F: "chunkFraming N (Num 9007199254740991) (Num 8192) = Inr F"
  shows "totalLength F = Num 9105055789613142"
proof -
  have s: "(9007199254740991::int) < 2 ^ 53" "(8192::int) < 2 ^ 53" by simp_all
  note f = chunkFraming_Inr[OF F s]
  have h: "toString16 N (Num 8192) = str ''2000''" "toString16 N (Num 8191) = str ''1fff''"
    by (simp_all add: toString16.simps natToHex.simps hexDigit_def str_def)
  have l: "int (length (str ''2000;chunk-signature='')) = 21"
    "int (length (str ''1fff;chunk-signature='')) = 21"
    "int (length (str ''0;chunk-signature='')) = 18"
    by (simp_all add: str_def)
  have c: "chunks F = Num 1099511627775" "lastLength F = Num 8191" using f(5,6) by simp_all
  have hd: "chunkHeader F = str ''2000;chunk-signature=''" "lastHeader F = str ''1fff;chunk-signature=''"
    using f(7,8) h by (simp_all add: str_def)
  show ?thesis
    unfolding totalLength_unfold[OF F] f(1) c hd f(9) l
    by (simp add: numAdd.simps numMul.simps numTruthy_Num double_eval)
qed

lemma large_declared: "declaredTotal 9007199254740991 8192 = 9105055789613141"
  by (simp add: declaredTotal_def overhead_def natToHex.simps str_def)

text \<open>
  Claim C3, for a body length and a chunk length below \<open>2 ^ 53\<close> whose declared total is
  below \<open>2 ^ 53\<close>. Whenever \<open>signS3ChunkedRequest\<close> returns (before any chunk is signed), the
  \<open>content-length\<close> of the parameters that it returns is the number \<open>declaredTotal\<close> of the
  specification: the body length plus the overhead of every full chunk, of the short final
  chunk when \<open>lastLength > 0\<close>, and of the terminal marker, each overhead being the length of
  the frame header plus 64 plus 4. The signer that it returns accepts every prefix of the
  conforming sequence and is done after the whole of it; and, for a MAC of 32 bytes, every
  complete run of it has the conforming lengths and emits as many characters as the declared
  total adds to the body length. For \<open>bodyLength = 8192 * 2 + 100\<close> and
  \<open>chunkLength = 8192\<close> the conforming sequence is \<open>[8192, 8192, 100, 0]\<close> and the declared
  total is the body length plus the four frame overheads.
\<close>

theorem declared_total_length:
  assumes e: "signS3ChunkedRequest E N K now H c req (Num B) (Num C) opts = (Inr (params, sg), req', H')"
    and l: "keepsLowerCase E"
    and sB: "B < 2 ^ 53" and sC: "C < 2 ^ 53" and T: "declaredTotal B C < 2 ^ 53"
  shows "map_of params (str ''content-length'') = Some (HNumber (declaredTotal B C))
     \<and> (\<forall>cs n. map chunkLen cs = map (Some \<circ> Num) (take n (conformingLengths B C)) \<longrightarrow>
          (\<exists>outs st. runSigner K (signerFraming sg) (signerSigning sg) (signerTimestamp sg)
                        (signerState sg) cs = Inr (outs, st)
             \<and> length outs = length cs \<and> (isDone st \<longleftrightarrow> conformingCalls B C \<le> n)))
     \<and> ((\<forall>k m. length (hmac_sha256 K k m) = 32) \<longrightarrow>
          (\<forall>cs outs st. runSigner K (signerFraming sg) (signerSigning sg) (signerTimestamp sg)
                          (signerState sg) cs = Inr (outs, st) \<and> isDone st \<longrightarrow>
             map bytesOf cs = conformingLengths B C
             \<and> declaredTotal B C = B + (\<Sum>f\<leftarrow>outs. int (length f))))
     \<and> (B = 8192 * 2 + 100 \<and> C = 8192 \<longrightarrow>
          conformingLengths B C = [8192, 8192, 100, 0]
          \<and> declaredTotal B C
              = B + (int (length (str ''2000;chunk-signature='')) + 64 + 4)
                  + (int (length (str ''2000;chunk-signature='')) + 64 + 4)
                  + (int (length (str ''64;chunk-signature='')) + 64 + 4)
                  + (int (length (str ''0;chunk-signature='')) + 64 + 4))"
proof -
  note r = signS3ChunkedRequest_content_length[OF e l]
  from r(3) obtain seed where s: "signerState sg = newSigner seed" ..
  note F = r(1)
  note f = chunkFraming_Inr[OF F sB sC]
  have t: "totalLength (signerFraming sg) = Num (declaredTotal B C)"
    by (rule totalLength_safe[OF F sB sC T])
  have d: "0 \<le> declaredTotal B C"
    using f(3,4) overhead_pos[of C] overhead_pos[of "B - B div C * C"] overhead_pos[of 0]
      pos_imp_zdiv_nonneg_iff[of C B]
    by (simp add: declaredTotal_def)
  have 1: "map_of params (str ''content-length'') = Some (HNumber (declaredTotal B C))"
    unfolding r(2) t using d T by (simp add: numberValue_def)
  have 2: "\<forall>cs n. map chunkLen cs = map (Some \<circ> Num) (take n (conformingLengths B C)) \<longrightarrow>
          (\<exists>outs st. runSigner K (signerFraming sg) (signerSigning sg) (signerTimestamp sg)
                        (signerState sg) cs = Inr (outs, st)
             \<and> length outs = length cs \<and> (isDone st \<longleftrightarrow> conformingCalls B C \<le> n))"
    unfolding s using runSigner_new_conforming[OF F sB sC] by blast
  have 3: "(\<forall>k m. length (hmac_sha256 K k m) = 32) \<longrightarrow>
          (\<forall>cs outs st. runSigner K (signerFraming sg) (signerSigning sg) (signerTimestamp sg)
                          (signerState sg) cs = Inr (outs, st) \<and> isDone st \<longrightarrow>
             map bytesOf cs = conformingLengths B C
             \<and> declaredTotal B C = B + (\<Sum>f\<leftarrow>outs. int (length f)))"
    unfolding s using complete_run_lengths[OF F sB sC] emitted_total[OF F sB sC] by blast
  have 4: "B = 8192 * 2 + 100 \<and> C = 8192 \<longrightarrow>
          conformingLengths B C = [8192, 8192, 100, 0]
          \<and> declaredTotal B C
              = B + (int (length (str ''2000;chunk-signature='')) + 64 + 4)
                  + (int (length (str ''2000;chunk-signature='')) + 64 + 4)
                  + (int (length (str ''64;chunk-signature='')) + 64 + 4)
                  + (int (length (str ''0;chunk-signature='')) + 64 + 4)"
    by (auto simp: streaming_calls streaming_total str_def)
  show ?thesis by (intro conjI) (rule 1 2 3 4)+
qed

theorem declared_total_length_witness:
  "\<exists>params sg req' H' outs st.
     signS3ChunkedRequest stubRuntime stubFormat stubCrypto (str ''2020-01-01T00:00:00.000Z'')
       exampleHeap exampleCredentials exampleS3Request (Num 16484) (Num 8192) defaultS3Options
     = (Inr (params, sg), req', H')
     \<and> keepsLowerCase stubRuntime
     \<and> (16484 :: int) < 2 ^ 53 \<and> (8192 :: int) < 2 ^ 53 \<and> declaredTotal 16484 8192 < 2 ^ 53
     \<and> map_of params (str ''content-length'') = Some (HNumber 16835)
     \<and> runSigner stubCrypto (signerFraming sg) (signerSigning sg) (signerTimestamp sg) (signerState sg)
         [Some (BodyHash [] (Some 8192)), Some (BodyHash [] (Some 8192)),
          Some (BodyHash [] (Some 100)), None] = Inr (outs, st)
     \<and> isDone st \<and> length outs = 4
     \<and> 16484 + (\<Sum>f\<leftarrow>outs. int (length f)) = 16835"
proof -
  have s: "(16484::int) < 2 ^ 53" "(8192::int) < 2 ^ 53" "declaredTotal 16484 8192 < 2 ^ 53"
    by (simp_all add: streaming_total)
  obtain F where F: "chunkFraming stubFormat (Num 16484) (Num 8192) = Inr F"
    using chunkFraming_valid[of 8192 16484 stubFormat] by auto
  from streaming_chunked[OF F] obtain params sg req' H' where
    e: "signS3ChunkedRequest stubRuntime stubFormat stubCrypto (str ''2020-01-01T00:00:00.000Z'')
       exampleHeap exampleCredentials exampleS3Request (Num 16484) (Num 8192) defaultS3Options
     = (Inr (params, sg), req', H')" by blast
  note t = declared_total_length[OF e stubRuntime_keepsLowerCase s]
  define cs where "cs = [Some (BodyHash [] (Some 8192)), Some (BodyHash [] (Some 8192)),
          Some (BodyHash [] (Some 100)), None]"
  have c: "map chunkLen cs = map (Some \<circ> Num) (take 4 (conformingLengths 16484 8192))"
    by (simp add: streaming_calls cs_def)
  from t c obtain outs st where
    r: "runSigner stubCrypto (signerFraming sg) (signerSigning sg) (signerTimestamp sg)
          (signerState sg) cs = Inr (outs, st)"
    and n': "length outs = length cs"
    and d: "isDone st \<longleftrightarrow> conformingCalls 16484 8192 \<le> 4" by blast
  have d': "isDone st" using d by (simp add: streaming_calls)
  from t stubCrypto_32 r d' have m: "map bytesOf cs = conformingLengths 16484 8192"
    and x: "declaredTotal 16484 8192 = 16484 + (\<Sum>f\<leftarrow>outs. int (length f))" by blast+
  have n: "length outs = 4"
    using n' by (simp add: cs_def)
  from t have p: "map_of params (str ''content-length'') = Some (HNumber 16835)"
    by (simp add: streaming_total)
  show ?thesis
    using e stubRuntime_keepsLowerCase s p r[unfolded cs_def] d' n x[unfolded streaming_total, symmetric]
    by blast
qed

theorem declared_total_length_counterexample:
  "\<exists>params sg req' H'.
     signS3ChunkedRequest stubRuntime exampleFormat stubCrypto (str ''2020-01-01T00:00:00.000Z'')
       exampleHeap exampleCredentials exampleS3Request (Num 9007199254740991) (Num 8192)
       defaultS3Options
     = (Inr (params, sg), req', H')
     \<and> map_of params (str ''content-length'') = Some (HString (str ''9105055789613142''))
     \<and> totalLength (signerFraming sg) = Num 9105055789613142
     \<and> declaredTotal 9007199254740991 8192 = 9105055789613141"
proof -
  obtain F where F: "chunkFraming exampleFormat (Num 9007199254740991) (Num 8192) = Inr F"
    using chunkFraming_valid[of 8192 9007199254740991 exampleFormat] by auto
  from streaming_chunked[OF F] obtain params sg req' H' where
    e: "signS3ChunkedRequest stubRuntime exampleFormat stubCrypto (str ''2020-01-01T00:00:00.000Z'')
       exampleHeap exampleCredentials exampleS3Request (Num 9007199254740991) (Num 8192)
       defaultS3Options
     = (Inr (params, sg), req', H')" by blast
  note r = signS3ChunkedRequest_content_length[OF e stubRuntime_keepsLowerCase]
  have t: "totalLength (signerFraming sg) = Num 9105055789613142" by (rule large_total[OF r(1)])
  have p: "map_of params (str ''content-length'') = Some (HString (str ''9105055789613142''))"
    unfolding r(2) t by (simp add: numberValue_def exampleFormat_def)
  show ?thesis using e p t large_declared by blast
qed

end
